(* ===== verification/Prelude.thy ===== *)
theory Prelude
  imports Main "HOL-Library.Word" "HOL-Library.Char_ord" "HOL-Library.List_Lexorder"
    "HOL-Library.Code_Target_Nat"
begin

text \<open>
  What every component of the development shares: Rust's \<open>Result\<close> as a sum with its
  \<open>?\<close> operator, the functions of Rust's \<open>str\<close> and \<open>u8\<close> the host uses on
  byte strings (a Rust string is modelled by its UTF-8 bytes, so \<open>length\<close> is
  \<open>len()\<close>), decimal printing and parsing with Rust's rules, saturating and checked
  arithmetic of the machine's 64-bit integers, and runs of step functions.
\<close>

named_theorems ascii_defs \<open>definitions of the ASCII byte classes\<close>
named_theorems result_simps \<open>rewriting of the Result bind\<close>

section \<open>Results\<close>

definition bind_result :: "'e + 'a \<Rightarrow> ('a \<Rightarrow> 'e + 'b) \<Rightarrow> 'e + 'b" where
  "bind_result r f = (case r of Inl e \<Rightarrow> Inl e | Inr a \<Rightarrow> f a)"

definition is_ok :: "'e + 'a \<Rightarrow> bool" where
  "is_ok r = (case r of Inl _ \<Rightarrow> False | Inr _ \<Rightarrow> True)"

fun map_result :: "('a \<Rightarrow> 'e + 'b) \<Rightarrow> 'a list \<Rightarrow> 'e + 'b list" where
  "map_result f [] = Inr []"
| "map_result f (x # xs) =
     bind_result (f x) (\<lambda>y. bind_result (map_result f xs) (\<lambda>ys. Inr (y # ys)))"

definition option_or :: "'a option \<Rightarrow> 'a option \<Rightarrow> 'a option" where
  "option_or x y = (case x of None \<Rightarrow> y | Some a \<Rightarrow> Some a)"

definition unwrap_or :: "'a option \<Rightarrow> 'a \<Rightarrow> 'a" where
  "unwrap_or x d = (case x of None \<Rightarrow> d | Some a \<Rightarrow> a)"

section \<open>Machine integers\<close>

definition u64_max :: nat where
  "u64_max = 2 ^ 64 - 1"

definition usize_max :: nat where
  "usize_max = 2 ^ 64 - 1"

definition saturating_add :: "nat \<Rightarrow> nat \<Rightarrow> nat" where
  "saturating_add a b = min (a + b) u64_max"

definition checked_add :: "nat \<Rightarrow> nat \<Rightarrow> nat option" where
  "checked_add a b = (if a + b \<le> u64_max then Some (a + b) else None)"

section \<open>Bytes and strings\<close>

definition code :: "char \<Rightarrow> nat" where
  "code c = of_char c"

definition is_ascii :: "char \<Rightarrow> bool" where
  [ascii_defs]: "is_ascii c = (code c < 128)"

definition is_ascii_digit :: "char \<Rightarrow> bool" where
  [ascii_defs]: "is_ascii_digit c = (48 \<le> code c \<and> code c \<le> 57)"

definition is_ascii_upper :: "char \<Rightarrow> bool" where
  [ascii_defs]: "is_ascii_upper c = (65 \<le> code c \<and> code c \<le> 90)"

definition is_ascii_lower :: "char \<Rightarrow> bool" where
  [ascii_defs]: "is_ascii_lower c = (97 \<le> code c \<and> code c \<le> 122)"

definition is_ascii_alphanumeric :: "char \<Rightarrow> bool" where
  [ascii_defs]: "is_ascii_alphanumeric c = (is_ascii_digit c \<or> is_ascii_upper c \<or> is_ascii_lower c)"

definition is_ascii_hexdigit :: "char \<Rightarrow> bool" where
  [ascii_defs]: "is_ascii_hexdigit c =
     (is_ascii_digit c \<or> (65 \<le> code c \<and> code c \<le> 70) \<or> (97 \<le> code c \<and> code c \<le> 102))"

definition ascii_lower :: "char \<Rightarrow> char" where
  "ascii_lower c = (if is_ascii_upper c then char_of (code c + 32) else c)"

definition to_ascii_lowercase :: "string \<Rightarrow> string" where
  "to_ascii_lowercase s = map ascii_lower s"

definition eq_ignore_ascii_case :: "string \<Rightarrow> string \<Rightarrow> bool" where
  "eq_ignore_ascii_case a b = (map ascii_lower a = map ascii_lower b)"

text \<open>
  The white space that \<open>str::trim\<close> removes, on ASCII text (the host trims header text
  only, which \<open>HeaderValue::to_str\<close> has checked to be ASCII).
\<close>

definition is_white :: "char \<Rightarrow> bool" where
  [ascii_defs]: "is_white c = (code c = 32 \<or> (9 \<le> code c \<and> code c \<le> 13))"

definition trim_matches :: "(char \<Rightarrow> bool) \<Rightarrow> string \<Rightarrow> string" where
  "trim_matches p s = rev (dropWhile p (rev (dropWhile p s)))"

definition trim :: "string \<Rightarrow> string" where
  "trim s = trim_matches is_white s"

definition starts_with :: "string \<Rightarrow> string \<Rightarrow> bool" where
  "starts_with s p = (take (length p) s = p)"

definition ends_with :: "string \<Rightarrow> string \<Rightarrow> bool" where
  "ends_with s p = (length p \<le> length s \<and> drop (length s - length p) s = p)"

definition strip_prefix :: "string \<Rightarrow> string \<Rightarrow> string option" where
  "strip_prefix s p = (if starts_with s p then Some (drop (length p) s) else None)"

definition strip_suffix :: "string \<Rightarrow> string \<Rightarrow> string option" where
  "strip_suffix s p = (if ends_with s p then Some (take (length s - length p) s) else None)"

fun split_on :: "char \<Rightarrow> string \<Rightarrow> string list" where
  "split_on c [] = [[]]"
| "split_on c (x # xs) =
     (if x = c then [] # split_on c xs
      else (case split_on c xs of [] \<Rightarrow> [[x]] | w # ws \<Rightarrow> (x # w) # ws))"

fun join_with :: "char \<Rightarrow> string list \<Rightarrow> string" where
  "join_with c [] = []"
| "join_with c [w] = w"
| "join_with c (w # ws) = w @ c # join_with c ws"

definition split_once :: "char \<Rightarrow> string \<Rightarrow> (string \<times> string) option" where
  "split_once c s =
     (case dropWhile (\<lambda>x. x \<noteq> c) s of [] \<Rightarrow> None | _ # r \<Rightarrow> Some (takeWhile (\<lambda>x. x \<noteq> c) s, r))"

fun split_once_str :: "string \<Rightarrow> string \<Rightarrow> (string \<times> string) option" where
  "split_once_str p [] = (if p = [] then Some ([], []) else None)"
| "split_once_str p (x # xs) =
     (if starts_with (x # xs) p then Some ([], drop (length p) (x # xs))
      else (case split_once_str p xs of None \<Rightarrow> None | Some (a, b) \<Rightarrow> Some (x # a, b)))"

definition contains_str :: "string \<Rightarrow> string \<Rightarrow> bool" where
  "contains_str s p = (split_once_str p s \<noteq> None)"

fun find_index :: "('a \<Rightarrow> bool) \<Rightarrow> 'a list \<Rightarrow> nat option" where
  "find_index p [] = None"
| "find_index p (x # xs) = (if p x then Some 0 else map_option Suc (find_index p xs))"

definition find_char :: "char \<Rightarrow> string \<Rightarrow> nat option" where
  "find_char c s = find_index (\<lambda>x. x = c) s"

definition rfind_char :: "char \<Rightarrow> string \<Rightarrow> nat option" where
  "rfind_char c s =
     (case find_char c (rev s) of None \<Rightarrow> None | Some i \<Rightarrow> Some (length s - 1 - i))"

definition rsplit_once :: "char \<Rightarrow> string \<Rightarrow> (string \<times> string) option" where
  "rsplit_once c s =
     (case rfind_char c s of None \<Rightarrow> None | Some i \<Rightarrow> Some (take i s, drop (Suc i) s))"

section \<open>Decimal numbers\<close>

definition digit_value :: "char \<Rightarrow> nat" where
  "digit_value c = code c - 48"

definition digit_char :: "nat \<Rightarrow> char" where
  "digit_char d = char_of (48 + d)"

definition decimal_value :: "string \<Rightarrow> nat" where
  "decimal_value s = foldl (\<lambda>n c. 10 * n + digit_value c) 0 s"

fun to_decimal :: "nat \<Rightarrow> string" where
  "to_decimal n = (if n < 10 then [digit_char n] else to_decimal (n div 10) @ [digit_char (n mod 10)])"

declare to_decimal.simps [simp del]

text \<open>
  \<open>parse_uint m\<close> is \<open>str::parse\<close> at an unsigned type whose largest value is \<open>m\<close>:
  an optional leading \<open>+\<close>, then at least one digit, and no overflow.
\<close>

definition parse_digits :: "nat \<Rightarrow> string \<Rightarrow> nat option" where
  "parse_digits m s =
     (if s \<noteq> [] \<and> list_all is_ascii_digit s \<and> decimal_value s \<le> m
      then Some (decimal_value s) else None)"

definition parse_uint :: "nat \<Rightarrow> string \<Rightarrow> nat option" where
  "parse_uint m s =
     (case s of [] \<Rightarrow> None
      | c # r \<Rightarrow> if c = CHR ''+'' then parse_digits m r else parse_digits m s)"

abbreviation parse_u64 :: "string \<Rightarrow> nat option" where
  "parse_u64 \<equiv> parse_uint u64_max"

abbreviation parse_u16 :: "string \<Rightarrow> nat option" where
  "parse_u16 \<equiv> parse_uint 65535"

section \<open>Runs of step functions\<close>

definition run_steps :: "('e \<Rightarrow> 's \<Rightarrow> 's) \<Rightarrow> 'e list \<Rightarrow> 's \<Rightarrow> 's" where
  "run_steps f es s = foldl (\<lambda>t e. f e t) s es"

section \<open>Lemmas\<close>

lemma bind_result_Inr [simp, result_simps]: "bind_result (Inr a) f = f a"
  by (simp add: bind_result_def)

lemma bind_result_Inl [simp, result_simps]: "bind_result (Inl e) f = Inl e"
  by (simp add: bind_result_def)

lemma bind_result_eq_Inr [simp, result_simps]:
  "bind_result r f = Inr b \<longleftrightarrow> (\<exists>a. r = Inr a \<and> f a = Inr b)"
  by (cases r) simp_all

lemma bind_result_eq_Inl:
  "bind_result r f = Inl e \<longleftrightarrow> r = Inl e \<or> (\<exists>a. r = Inr a \<and> f a = Inl e)"
  by (cases r) simp_all

lemma bind_result_cong [fundef_cong]:
  "r = r' \<Longrightarrow> (\<And>a. r' = Inr a \<Longrightarrow> f a = g a) \<Longrightarrow> bind_result r f = bind_result r' g"
  by (cases r') simp_all

lemma is_ok_simps [simp]: "is_ok (Inr a)" "\<not> is_ok (Inl e)"
  by (simp_all add: is_ok_def)

lemma is_ok_iff: "is_ok r \<longleftrightarrow> (\<exists>a. r = Inr a)"
  by (cases r) simp_all

lemma map_result_eq_Inr:
  "map_result f xs = Inr ys \<longleftrightarrow> list_all2 (\<lambda>x y. f x = Inr y) xs ys"
  by (induction xs arbitrary: ys) (auto simp: list_all2_Cons1)

lemma saturating_add_le [simp]: "saturating_add a b \<le> u64_max"
  by (simp add: saturating_add_def)

lemma saturating_add_exact: "a + b \<le> u64_max \<Longrightarrow> saturating_add a b = a + b"
  by (simp add: saturating_add_def)

lemma code_lt [simp]: "code c < 256"
  by (simp add: code_def)

lemma code_inj [simp]: "code c = code d \<longleftrightarrow> c = d"
  by (simp add: code_def)

lemma code_char_of [simp]: "n < 256 \<Longrightarrow> code (char_of n) = n"
  by (simp add: code_def)

lemma char_of_code [simp]: "char_of (code c) = c"
  by (simp add: code_def)

lemma ascii_lower_code:
  "code (ascii_lower c) = (if is_ascii_upper c then code c + 32 else code c)"
  by (auto simp: ascii_lower_def is_ascii_upper_def)

lemma ascii_lower_idem [simp]: "ascii_lower (ascii_lower c) = ascii_lower c"
proof -
  have "code (ascii_lower (ascii_lower c)) = code (ascii_lower c)"
    by (auto simp: ascii_lower_code is_ascii_upper_def)
  then show ?thesis by simp
qed

lemma eq_ignore_ascii_case_refl [simp]: "eq_ignore_ascii_case a a"
  by (simp add: eq_ignore_ascii_case_def)

lemma eq_ignore_ascii_case_sym: "eq_ignore_ascii_case a b \<longleftrightarrow> eq_ignore_ascii_case b a"
  by (auto simp: eq_ignore_ascii_case_def)

lemma eq_ignore_ascii_case_trans:
  "eq_ignore_ascii_case a b \<Longrightarrow> eq_ignore_ascii_case b c \<Longrightarrow> eq_ignore_ascii_case a c"
  by (simp add: eq_ignore_ascii_case_def)

lemma eq_ignore_ascii_case_lower:
  "eq_ignore_ascii_case a b \<longleftrightarrow> to_ascii_lowercase a = to_ascii_lowercase b"
  by (simp add: eq_ignore_ascii_case_def to_ascii_lowercase_def)

lemma to_ascii_lowercase_idem [simp]:
  "to_ascii_lowercase (to_ascii_lowercase s) = to_ascii_lowercase s"
  by (simp add: to_ascii_lowercase_def)

lemma starts_with_iff: "starts_with s p \<longleftrightarrow> (\<exists>r. s = p @ r)"
  by (auto simp: starts_with_def) (metis append_take_drop_id)

lemma starts_with_append [simp]: "starts_with (p @ r) p"
  by (simp add: starts_with_def)

lemma strip_prefix_Some: "strip_prefix s p = Some r \<longleftrightarrow> s = p @ r"
  by (auto simp: strip_prefix_def starts_with_def) (metis append_take_drop_id)

lemma strip_prefix_None: "strip_prefix s p = None \<longleftrightarrow> (\<forall>r. s \<noteq> p @ r)"
  by (metis strip_prefix_Some not_None_eq)

lemma ends_with_iff: "ends_with s p \<longleftrightarrow> (\<exists>r. s = r @ p)"
  by (auto simp: ends_with_def) (metis append_take_drop_id)

lemma strip_suffix_Some: "strip_suffix s p = Some r \<longleftrightarrow> s = r @ p"
  by (auto simp: strip_suffix_def ends_with_def) (metis append_take_drop_id)

lemma split_on_not_Nil [simp]: "split_on c s \<noteq> []"
  by (cases s) (auto split: list.splits)

lemma join_split [simp]: "join_with c (split_on c s) = s"
proof (induction s)
  case (Cons x xs)
  then show ?case
    by (cases "split_on c xs"; cases "tl (split_on c xs)") auto
qed simp

lemma split_on_no_sep: "w \<in> set (split_on c s) \<Longrightarrow> c \<notin> set w"
  by (induction s arbitrary: w) (auto split: if_splits list.splits)

lemma split_on_single: "c \<notin> set w \<Longrightarrow> split_on c w = [w]"
  by (induction w) auto

lemma split_on_append_sep: "c \<notin> set w \<Longrightarrow> split_on c (w @ c # s) = w # split_on c s"
  by (induction w) auto

lemma split_join:
  "ws \<noteq> [] \<Longrightarrow> (\<And>w. w \<in> set ws \<Longrightarrow> c \<notin> set w) \<Longrightarrow> split_on c (join_with c ws) = ws"
  by (induction c ws rule: join_with.induct) (auto simp: split_on_single split_on_append_sep)

lemma set_split_on: "w \<in> set (split_on c s) \<Longrightarrow> set w \<subseteq> set s"
proof (induction s arbitrary: w)
  case (Cons x xs)
  then show ?case by (cases "split_on c xs") (auto split: if_splits, blast+)
qed simp

lemma split_once_Some:
  "split_once c s = Some (a, b) \<longleftrightarrow> s = a @ c # b \<and> c \<notin> set a"
proof
  assume A: "split_once c s = Some (a, b)"
  then obtain d where d: "dropWhile (\<lambda>x. x \<noteq> c) s = d # b" "a = takeWhile (\<lambda>x. x \<noteq> c) s"
    by (auto simp: split_once_def split: list.splits)
  then have "d = c" using hd_dropWhile [of "\<lambda>x. x \<noteq> c" s] by auto
  with d show "s = a @ c # b \<and> c \<notin> set a"
    by (metis takeWhile_dropWhile_id set_takeWhileD)
next
  assume "s = a @ c # b \<and> c \<notin> set a"
  then have s: "s = a @ c # b" and na: "\<forall>x\<in>set a. x \<noteq> c" by auto
  then show "split_once c s = Some (a, b)"
    by (simp add: split_once_def)
qed

lemma split_once_None: "split_once c s = None \<longleftrightarrow> c \<notin> set s"
  using dropWhile_eq_Nil_conv [of "\<lambda>x. x \<noteq> c" s]
  by (auto simp: split_once_def split: list.splits simp del: dropWhile_eq_Nil_conv)

lemma split_once_str_Some: "split_once_str p s = Some (a, b) \<Longrightarrow> s = a @ p @ b"
  by (induction s arbitrary: a)
    (auto simp: starts_with_iff split: if_splits option.splits)

lemma find_index_Some:
  "find_index p xs = Some i \<Longrightarrow> i < length xs \<and> p (xs ! i) \<and> (\<forall>j<i. \<not> p (xs ! j))"
  by (induction xs arbitrary: i)
    (auto split: if_splits simp: less_Suc_eq_0_disj)

lemma find_index_None [simp]: "find_index p xs = None \<longleftrightarrow> (\<forall>x\<in>set xs. \<not> p x)"
  by (induction xs) auto

lemma rsplit_once_Some:
  "rsplit_once c s = Some (a, b) \<Longrightarrow> s = a @ c # b \<and> c \<notin> set b"
proof -
  assume A: "rsplit_once c s = Some (a, b)"
  then obtain i where i: "find_index (\<lambda>x. x = c) (rev s) = Some i"
    and ab: "a = take (length s - 1 - i) s" "b = drop (Suc (length s - 1 - i)) s"
    by (auto simp: rsplit_once_def rfind_char_def find_char_def split: option.splits)
  from find_index_Some [OF i] have I: "i < length s" "rev s ! i = c" "\<forall>j<i. rev s ! j \<noteq> c" by auto
  let ?k = "length s - 1 - i"
  have k: "?k < length s" "s ! ?k = c" using I by (auto simp: rev_nth)
  have s: "s = a @ c # b"
    using k ab by (metis id_take_nth_drop)
  have "length b = i" using ab I by simp
  then have "rev b = take i (rev s)" using s by simp
  then have "c \<notin> set b"
    using I by (metis in_set_conv_nth length_rev length_take min_less_iff_conj nth_take set_rev)
  with s show ?thesis by simp
qed

lemma rsplit_once_None: "rsplit_once c s = None \<longleftrightarrow> c \<notin> set s"
  using find_index_None [of "\<lambda>x. x = c" "rev s"]
  by (auto simp: rsplit_once_def rfind_char_def find_char_def split: option.splits
      simp del: find_index_None)

lemma digit_char_code [simp]: "d < 10 \<Longrightarrow> code (digit_char d) = 48 + d"
  by (simp add: digit_char_def)

lemma digit_value_char [simp]: "d < 10 \<Longrightarrow> digit_value (digit_char d) = d"
  by (simp add: digit_value_def)

lemma is_ascii_digit_char [simp]: "d < 10 \<Longrightarrow> is_ascii_digit (digit_char d)"
  by (simp add: is_ascii_digit_def)

lemma decimal_value_snoc [simp]: "decimal_value (s @ [c]) = 10 * decimal_value s + digit_value c"
  by (simp add: decimal_value_def)

lemma decimal_value_Nil [simp]: "decimal_value [] = 0"
  by (simp add: decimal_value_def)

lemma to_decimal_not_Nil [simp]: "to_decimal n \<noteq> []"
  by (subst to_decimal.simps) simp

lemma to_decimal_digits [simp]: "list_all is_ascii_digit (to_decimal n)"
  by (induction n rule: to_decimal.induct) (subst to_decimal.simps, auto)

lemma decimal_value_to_decimal [simp]: "decimal_value (to_decimal n) = n"
proof (induction n rule: to_decimal.induct)
  case (1 n)
  show ?case
  proof (cases "n < 10")
    case True
    then show ?thesis by (subst to_decimal.simps) (simp add: decimal_value_def)
  next
    case False
    with 1 show ?thesis by (subst to_decimal.simps) simp
  qed
qed

lemma to_decimal_inj [simp]: "to_decimal m = to_decimal n \<longleftrightarrow> m = n"
  by (metis decimal_value_to_decimal)

lemma parse_digits_Some:
  "parse_digits m s = Some n \<longleftrightarrow>
     s \<noteq> [] \<and> list_all is_ascii_digit s \<and> decimal_value s = n \<and> n \<le> m"
  by (auto simp: parse_digits_def)

lemma parse_digits_to_decimal: "n \<le> m \<Longrightarrow> parse_digits m (to_decimal n) = Some n"
  by (simp add: parse_digits_def)

lemma parse_uint_bound: "parse_uint m s = Some n \<Longrightarrow> n \<le> m"
  by (auto simp: parse_uint_def parse_digits_Some split: list.splits if_splits)

lemma parse_uint_plain:
  "s \<noteq> [] \<Longrightarrow> hd s \<noteq> CHR ''+'' \<Longrightarrow> parse_uint m s = parse_digits m s"
  by (cases s) (auto simp: parse_uint_def)

lemma parse_uint_digits:
  assumes "list_all is_ascii_digit s"
  shows "parse_uint m s = parse_digits m s"
proof (cases s)
  case Nil
  then show ?thesis by (simp add: parse_uint_def parse_digits_def)
next
  case (Cons c r)
  with assms have "c \<noteq> CHR ''+''" by (auto simp: is_ascii_digit_def code_def)
  with Cons show ?thesis by (simp add: parse_uint_plain)
qed

lemma parse_uint_to_decimal [simp]: "n \<le> m \<Longrightarrow> parse_uint m (to_decimal n) = Some n"
  by (simp add: parse_uint_digits parse_digits_to_decimal)

lemma parse_uint_plus: "parse_uint m (CHR ''+'' # s) = parse_digits m s"
  by (simp add: parse_uint_def)

lemma dropWhile_idem_last:
  "s \<noteq> [] \<Longrightarrow> \<not> p (hd s) \<Longrightarrow> dropWhile p (rev (dropWhile p (rev s))) = rev (dropWhile p (rev s))"
proof -
  assume s: "s \<noteq> []" "\<not> p (hd s)"
  then obtain h t where h: "s = h # t" "\<not> p h" by (cases s) auto
  then have "rev (dropWhile p (rev s)) = h # rev (dropWhile p (rev t))"
    by (simp add: dropWhile_append)
  with h show ?thesis by simp
qed

lemma trim_matches_idem [simp]: "trim_matches p (trim_matches p s) = trim_matches p s"
proof (cases "dropWhile p s = []")
  case True
  then show ?thesis by (simp add: trim_matches_def del: dropWhile_eq_Nil_conv)
next
  case False
  then have "\<not> p (hd (dropWhile p s))" by (rule hd_dropWhile)
  with False show ?thesis by (simp add: trim_matches_def dropWhile_idem_last)
qed

lemma trim_idem [simp]: "trim (trim s) = trim s"
  by (simp add: trim_def)

lemma set_trim: "set (trim s) \<subseteq> set s"
  by (auto simp: trim_def trim_matches_def dest!: set_dropWhileD)

lemma run_steps_Nil [simp]: "run_steps f [] s = s"
  by (simp add: run_steps_def)

lemma run_steps_Cons [simp]: "run_steps f (e # es) s = run_steps f es (f e s)"
  by (simp add: run_steps_def)

lemma run_steps_append: "run_steps f (es @ es') s = run_steps f es' (run_steps f es s)"
  by (simp add: run_steps_def)

lemma run_steps_invariant:
  assumes "P s" "\<And>e s. P s \<Longrightarrow> P (f e s)"
  shows "P (run_steps f es s)"
  using assms by (induction es arbitrary: s) auto

lemma run_steps_invariant_on:
  assumes "P s" "\<And>e s. P s \<Longrightarrow> e \<in> set es \<Longrightarrow> P (f e s)"
  shows "P (run_steps f es s)"
  using assms by (induction es arbitrary: s) auto

lemma find_index_append: "\<forall>x\<in>set a. \<not> p x \<Longrightarrow> p y \<Longrightarrow> find_index p (a @ y # b) = Some (length a)"
  by (induction a) auto

lemma find_char_append: "c \<notin> set a \<Longrightarrow> find_char c (a @ c # b) = Some (length a)"
  by (auto simp: find_char_def intro!: find_index_append)

lemma find_char_Some:
  "find_char c s = Some i \<Longrightarrow> i < length s \<and> s ! i = c \<and> c \<notin> set (take i s)"
  using find_index_Some [of "\<lambda>x. x = c" s i] by (auto simp: find_char_def in_set_conv_nth)

lemma rfind_char_append: "c \<notin> set b \<Longrightarrow> rfind_char c (a @ c # b) = Some (length a)"
  by (simp add: rfind_char_def find_char_append)

lemma rfind_char_Some:
  assumes "rfind_char c s = Some i"
  shows "\<exists>a b. s = a @ c # b \<and> length a = i \<and> c \<notin> set b"
proof -
  from assms have r: "rsplit_once c s = Some (take i s, drop (Suc i) s)" by (simp add: rsplit_once_def)
  have "i < length s"
    using assms find_char_Some [of c "rev s"] by (auto simp: rfind_char_def split: option.splits)
  with rsplit_once_Some [OF r] show ?thesis by (metis length_take min.absorb4)
qed

lemma rfind_char_None: "rfind_char c s = None \<longleftrightarrow> c \<notin> set s"
  using find_index_None [of "\<lambda>x. x = c" "rev s"]
  by (auto simp: rfind_char_def find_char_def split: option.splits simp del: find_index_None)

lemma split_once_str_append:
  "\<forall>c\<in>set a. c \<noteq> p \<Longrightarrow> split_once_str (p # ps) (a @ (p # ps) @ b) = Some (a, b)"
  by (induction a) (auto simp: starts_with_def)

lemma split_once_str_None:
  "p \<notin> set s \<Longrightarrow> split_once_str (p # ps) s = None"
  by (induction s) (auto simp: starts_with_def split: option.splits)

lemma strip_prefix_char:
  "strip_prefix s [c] = (case s of [] \<Rightarrow> None | x # r \<Rightarrow> if x = c then Some r else None)"
  by (auto simp: strip_prefix_def starts_with_def split: list.splits)

lemma starts_with_char: "starts_with s [c] \<longleftrightarrow> (\<exists>r. s = c # r)"
  by (auto simp: starts_with_iff)

lemma unat_word_of_nat_small:
  "n < 2 ^ LENGTH('a::len) \<Longrightarrow> unat (word_of_nat n :: 'a word) = n"
  by (simp add: unat_of_nat)

section \<open>UTF-8\<close>

text \<open>\<open>std::str::from_utf8\<close>: the well-formed byte sequences of the Unicode standard.\<close>

definition is_cont :: "char \<Rightarrow> bool" where
  "is_cont c = (128 \<le> code c \<and> code c \<le> 191)"

fun utf8_valid :: "string \<Rightarrow> bool" where
  "utf8_valid [] = True"
| "utf8_valid (a # s) =
     (if code a < 128 then utf8_valid s
      else if 194 \<le> code a \<and> code a \<le> 223 then
        (case s of b # r \<Rightarrow> is_cont b \<and> utf8_valid r | _ \<Rightarrow> False)
      else if 224 \<le> code a \<and> code a \<le> 239 then
        (case s of b # c # r \<Rightarrow>
           (if code a = 224 then 160 \<le> code b \<and> code b \<le> 191
            else if code a = 237 then 128 \<le> code b \<and> code b \<le> 159 else is_cont b) \<and>
           is_cont c \<and> utf8_valid r
         | _ \<Rightarrow> False)
      else if 240 \<le> code a \<and> code a \<le> 244 then
        (case s of b # c # d # r \<Rightarrow>
           (if code a = 240 then 144 \<le> code b \<and> code b \<le> 191
            else if code a = 244 then 128 \<le> code b \<and> code b \<le> 143 else is_cont b) \<and>
           is_cont c \<and> is_cont d \<and> utf8_valid r
         | _ \<Rightarrow> False)
      else False)"

lemma utf8_valid_ascii: "list_all is_ascii s \<Longrightarrow> utf8_valid s"
  by (induction s) (auto simp: is_ascii_def)

lemma list_all_subset: "list_all P xs \<Longrightarrow> set ys \<subseteq> set xs \<Longrightarrow> list_all P ys"
  by (auto simp: list_all_iff)

lemma ascii_digit_visible: "is_ascii_digit c \<Longrightarrow> is_ascii c"
  by (simp add: ascii_defs)

lemma trim_matches_id: "list_all (\<lambda>c. \<not> p c) s \<Longrightarrow> trim_matches p s = s"
proof -
  assume s: "list_all (\<lambda>c. \<not> p c) s"
  have "dropWhile p xs = xs" if "list_all (\<lambda>c. \<not> p c) xs" for xs using that by (cases xs) auto
  from this [of s] this [of "rev s"] s show ?thesis by (simp add: trim_matches_def)
qed

lemma map_result_set: "map_result f xs = Inr ys \<Longrightarrow> y \<in> set ys \<Longrightarrow> \<exists>x\<in>set xs. f x = Inr y"
  by (induction xs arbitrary: ys) auto

lemma filter_update:
  "n < length xs \<Longrightarrow> length (filter P (xs[n := v])) + (if P (xs ! n) then 1 else 0) =
     length (filter P xs) + (if P v then 1 else 0)"
proof (induction xs arbitrary: n)
  case (Cons x xs)
  then show ?case using Cons.IH [of "n - 1"] by (cases n) auto
qed simp

end
