(* ===== verification/Recycling_Alloc.thy ===== *)
theory Recycling_Alloc
  imports Prelude
begin

text \<open>
  The fixed-slot allocator of \<open>src/src/compression.rs\<close> that recycles Brotli's scratch
  memory.  Boxed slices live in an explicit heap from pointers to a type identifier and the
  elements, so that aliasing, stale contents, type confusion and use after free are visible.
  The system allocator is outside the program: it supplies the pointer of a new allocation, which
  is required not to be live.
\<close>

definition BROTLI_RECYCLER_SLOTS :: nat where
  "BROTLI_RECYCLER_SLOTS = 32"

type_synonym 'v box_heap = "nat \<Rightarrow> (nat \<times> 'v list) option"

record 'v element_type =
  et_id :: nat
  et_size :: nat
  et_default :: 'v

record recycler_stats =
  rs_allocation_requests :: nat
  rs_cache_hits :: nat
  rs_system_allocations :: nat
  rs_frees :: nat
  rs_uncached_frees :: nat
  rs_cached_blocks :: nat
  rs_cached_bytes :: nat
  rs_peak_cached_bytes :: nat

record cached_block =
  cb_type_id :: nat
  cb_pointer :: nat
  cb_len :: nat
  cb_bytes :: nat

record recycling_alloc =
  ra_blocks :: "cached_block option list"
  ra_max_cached_bytes :: nat
  ra_stats :: recycler_stats

definition zero_stats :: recycler_stats where
  "zero_stats = \<lparr> rs_allocation_requests = 0, rs_cache_hits = 0, rs_system_allocations = 0,
     rs_frees = 0, rs_uncached_frees = 0, rs_cached_blocks = 0, rs_cached_bytes = 0,
     rs_peak_cached_bytes = 0 \<rparr>"

definition recycling_alloc_new :: "nat \<Rightarrow> recycling_alloc" where
  "recycling_alloc_new max_cached_bytes =
     \<lparr> ra_blocks = replicate BROTLI_RECYCLER_SLOTS None, ra_max_cached_bytes = max_cached_bytes,
       ra_stats = zero_stats \<rparr>"

definition from_box :: "'v element_type \<Rightarrow> nat \<Rightarrow> 'v list \<Rightarrow> cached_block" where
  "from_box T pointer data =
     \<lparr> cb_type_id = et_id T, cb_pointer = pointer, cb_len = length data,
       cb_bytes = length data * et_size T \<rparr>"

definition block_matches :: "'v element_type \<Rightarrow> nat \<Rightarrow> cached_block \<Rightarrow> bool" where
  "block_matches T len b = (cb_type_id b = et_id T \<and> cb_len b = len)"

definition drop_cached_block :: "nat \<Rightarrow> 'v box_heap \<Rightarrow> 'v box_heap" where
  "drop_cached_block pointer h = h(pointer := None)"

text \<open>
  A \<open>RecycledMemory\<close> is the pointer of its box, or nothing.  \<open>fresh\<close> is what the system
  allocator returns should the cache miss.
\<close>

definition alloc_cell ::
  "'v element_type \<Rightarrow> nat \<Rightarrow> nat \<Rightarrow> 'v box_heap \<Rightarrow> recycling_alloc \<Rightarrow>
     nat option \<times> 'v box_heap \<times> recycling_alloc" where
  "alloc_cell T len fresh h s =
     (let st = (ra_stats s)\<lparr> rs_allocation_requests := rs_allocation_requests (ra_stats s) + 1 \<rparr> in
      if len = 0 then (None, h, s\<lparr> ra_stats := st \<rparr>)
      else
        (case find_index (\<lambda>slot. case slot of None \<Rightarrow> False | Some b \<Rightarrow> block_matches T len b)
                (ra_blocks s) of
           Some i \<Rightarrow>
             (let b = the (ra_blocks s ! i) in
              (Some (cb_pointer b),
               h(cb_pointer b \<mapsto> (cb_type_id b, replicate (cb_len b) (et_default T))),
               s\<lparr> ra_blocks := (ra_blocks s)[i := None],
                  ra_stats := st\<lparr> rs_cache_hits := rs_cache_hits st + 1,
                                  rs_cached_blocks := rs_cached_blocks st - 1,
                                  rs_cached_bytes := rs_cached_bytes st - cb_bytes b \<rparr> \<rparr>))
         | None \<Rightarrow>
             (Some fresh, h(fresh \<mapsto> (et_id T, replicate len (et_default T))),
              s\<lparr> ra_stats := st\<lparr> rs_system_allocations := rs_system_allocations st + 1 \<rparr> \<rparr>)))"

definition free_box ::
  "cached_block \<Rightarrow> 'v box_heap \<Rightarrow> recycling_alloc \<Rightarrow> 'v box_heap \<times> recycling_alloc" where
  "free_box b h s =
     (let st = ra_stats s;
          within_byte_limit = (case checked_add (rs_cached_bytes st) (cb_bytes b) of
              None \<Rightarrow> False | Some bytes \<Rightarrow> bytes \<le> ra_max_cached_bytes s) in
      case (if within_byte_limit then find_index (\<lambda>slot. slot = None) (ra_blocks s) else None) of
        Some i \<Rightarrow>
          (h, s\<lparr> ra_blocks := (ra_blocks s)[i := Some b],
                 ra_stats := st\<lparr> rs_cached_blocks := rs_cached_blocks st + 1,
                                 rs_cached_bytes := rs_cached_bytes st + cb_bytes b,
                                 rs_peak_cached_bytes :=
                                   max (rs_peak_cached_bytes st) (rs_cached_bytes st + cb_bytes b) \<rparr> \<rparr>)
      | None \<Rightarrow>
          (drop_cached_block (cb_pointer b) h,
           s\<lparr> ra_stats := st\<lparr> rs_uncached_frees := rs_uncached_frees st + 1 \<rparr> \<rparr>))"

text \<open>Freeing a pointer that is not live would be a use after free: the result is \<open>None\<close>.\<close>

definition free_cell ::
  "'v element_type \<Rightarrow> nat option \<Rightarrow> 'v box_heap \<Rightarrow> recycling_alloc \<Rightarrow>
     ('v box_heap \<times> recycling_alloc) option" where
  "free_cell T mem h s =
     (let s = s\<lparr> ra_stats := (ra_stats s)\<lparr> rs_frees := rs_frees (ra_stats s) + 1 \<rparr> \<rparr> in
      case mem of
        None \<Rightarrow> Some (h, s)
      | Some pointer \<Rightarrow>
          (case h pointer of
             None \<Rightarrow> None
           | Some (_, data) \<Rightarrow>
               if data = [] then Some (drop_cached_block pointer h, s)
               else Some (free_box (from_box T pointer data) h s)))"

definition drop_alloc :: "'v box_heap \<Rightarrow> recycling_alloc \<Rightarrow> 'v box_heap \<times> recycling_alloc" where
  "drop_alloc h s =
     (foldl (\<lambda>h slot. case slot of None \<Rightarrow> h | Some b \<Rightarrow> drop_cached_block (cb_pointer b) h)
        h (ra_blocks s),
      s\<lparr> ra_blocks := map (\<lambda>_. None) (ra_blocks s) \<rparr>)"

section \<open>Runs\<close>

text \<open>
  The encoder's use of the allocator: it may request memory at any type and may return any
  memory it owns, at the type it was requested with.  \<open>owned\<close> holds the boxes handed out.
\<close>

record 'v recycler_world =
  rw_heap :: "'v box_heap"
  rw_alloc :: recycling_alloc
  rw_owned :: "(nat \<times> nat) list"

inductive recycler_step :: "'v recycler_world \<Rightarrow> 'v recycler_world \<Rightarrow> bool" where
  step_alloc: "rw_heap w fresh = None \<Longrightarrow>
    alloc_cell T len fresh (rw_heap w) (rw_alloc w) = (mem, h', s') \<Longrightarrow>
    recycler_step w \<lparr> rw_heap = h', rw_alloc = s', rw_owned =
      (case mem of None \<Rightarrow> rw_owned w | Some p \<Rightarrow> (p, et_id T) # rw_owned w) \<rparr>"
| step_free: "(p, et_id T) \<in> set (rw_owned w) \<Longrightarrow>
    free_cell T (Some p) (rw_heap w) (rw_alloc w) = Some (h', s') \<Longrightarrow>
    recycler_step w \<lparr> rw_heap = h', rw_alloc = s', rw_owned = remove1 (p, et_id T) (rw_owned w) \<rparr>"
| step_free_none: "free_cell T None (rw_heap w) (rw_alloc w) = Some (h', s') \<Longrightarrow>
    recycler_step w \<lparr> rw_heap = h', rw_alloc = s', rw_owned = rw_owned w \<rparr>"

definition cached :: "recycling_alloc \<Rightarrow> cached_block list" where
  "cached s = List.map_filter (\<lambda>x. x) (ra_blocks s)"

definition book_ok :: "recycling_alloc \<Rightarrow> bool" where
  "book_ok s =
     (length (ra_blocks s) = BROTLI_RECYCLER_SLOTS \<and>
      rs_cached_blocks (ra_stats s) = length (cached s) \<and>
      rs_cached_bytes (ra_stats s) = sum_list (map cb_bytes (cached s)) \<and>
      rs_cached_bytes (ra_stats s) \<le> rs_peak_cached_bytes (ra_stats s) \<and>
      rs_peak_cached_bytes (ra_stats s) \<le> ra_max_cached_bytes s)"

definition live_block :: "'v box_heap \<Rightarrow> cached_block \<Rightarrow> bool" where
  "live_block h b = (cb_len b > 0 \<and>
     (\<exists>data. h (cb_pointer b) = Some (cb_type_id b, data) \<and> length data = cb_len b))"

definition live_box :: "'v box_heap \<Rightarrow> nat \<times> nat \<Rightarrow> bool" where
  "live_box h pt = (\<exists>data. h (fst pt) = Some (snd pt, data) \<and> data \<noteq> [])"

definition heap_ok :: "'v box_heap \<Rightarrow> cached_block list \<Rightarrow> (nat \<times> nat) list \<Rightarrow> bool" where
  "heap_ok h cs own =
     (distinct (map cb_pointer cs @ map fst own) \<and> list_all (live_block h) cs \<and>
      list_all (live_box h) own)"

definition recycler_ok :: "'v recycler_world \<Rightarrow> bool" where
  "recycler_ok w =
     (book_ok (rw_alloc w) \<and> heap_ok (rw_heap w) (cached (rw_alloc w)) (rw_owned w))"

section \<open>Lemmas\<close>

definition slot_list :: "'a option \<Rightarrow> 'a list" where
  "slot_list slot = (case slot of None \<Rightarrow> [] | Some b \<Rightarrow> [b])"

lemma slot_list_simps [simp]: "slot_list None = []" "slot_list (Some b) = [b]"
  by (simp_all add: slot_list_def)

lemma map_filter_slots: "List.map_filter (\<lambda>x. x) bs = concat (map slot_list bs)"
  by (induction bs) (auto simp: List.map_filter_def slot_list_def split: option.splits)

lemma slots_update:
  assumes "i < length bs"
  obtains xs ys where "concat (map slot_list bs) = xs @ slot_list (bs ! i) @ ys"
    "\<And>v. concat (map slot_list (bs[i := v])) = xs @ slot_list v @ ys"
proof
  show "concat (map slot_list bs) =
      concat (map slot_list (take i bs)) @ slot_list (bs ! i) @ concat (map slot_list (drop (Suc i) bs))"
    by (subst id_take_nth_drop [OF assms]) simp
  show "concat (map slot_list (bs[i := v])) =
      concat (map slot_list (take i bs)) @ slot_list v @ concat (map slot_list (drop (Suc i) bs))" for v
    using assms by (simp add: upd_conv_take_nth_drop)
qed

lemma cached_alt: "cached s = concat (map slot_list (ra_blocks s))"
  by (simp add: cached_def map_filter_slots)

lemma cached_stats [simp]: "cached (s\<lparr> ra_stats := st \<rparr>) = cached s"
  by (simp add: cached_def)

lemma alloc_cell_cases:
  assumes "alloc_cell T len fresh h s = (mem, h', s')"
  obtains (zero) "len = 0" "mem = None" "h' = h" "cached s' = cached s"
      "ra_blocks s' = ra_blocks s" "rs_cached_blocks (ra_stats s') = rs_cached_blocks (ra_stats s)"
      "rs_cached_bytes (ra_stats s') = rs_cached_bytes (ra_stats s)"
      "rs_peak_cached_bytes (ra_stats s') = rs_peak_cached_bytes (ra_stats s)"
      "ra_max_cached_bytes s' = ra_max_cached_bytes s"
  | (hit) xs b ys where "len > 0" "mem = Some (cb_pointer b)" "block_matches T len b"
      "h' = h(cb_pointer b \<mapsto> (et_id T, replicate len (et_default T)))"
      "cached s = xs @ b # ys" "cached s' = xs @ ys" "length (ra_blocks s') = length (ra_blocks s)"
      "rs_cached_blocks (ra_stats s') = rs_cached_blocks (ra_stats s) - 1"
      "rs_cached_bytes (ra_stats s') = rs_cached_bytes (ra_stats s) - cb_bytes b"
      "rs_peak_cached_bytes (ra_stats s') = rs_peak_cached_bytes (ra_stats s)"
      "ra_max_cached_bytes s' = ra_max_cached_bytes s"
  | (miss) "len > 0" "mem = Some fresh" "h' = h(fresh \<mapsto> (et_id T, replicate len (et_default T)))"
      "cached s' = cached s"
      "ra_blocks s' = ra_blocks s" "rs_cached_blocks (ra_stats s') = rs_cached_blocks (ra_stats s)"
      "rs_cached_bytes (ra_stats s') = rs_cached_bytes (ra_stats s)"
      "rs_peak_cached_bytes (ra_stats s') = rs_peak_cached_bytes (ra_stats s)"
      "ra_max_cached_bytes s' = ra_max_cached_bytes s"
proof (cases "len = 0")
  case True
  show ?thesis by (rule zero) (use assms True in \<open>auto simp: alloc_cell_def Let_def cached_def\<close>)
next
  case False
  let ?f = "\<lambda>slot. case slot of None \<Rightarrow> False | Some b \<Rightarrow> block_matches T len b"
  show ?thesis
  proof (cases "find_index ?f (ra_blocks s)")
    case None
    show ?thesis
      by (rule miss) (use assms False None in \<open>auto simp: alloc_cell_def Let_def cached_def\<close>)
  next
    case (Some i)
    from find_index_Some [OF Some] obtain b where b: "i < length (ra_blocks s)"
      "ra_blocks s ! i = Some b" "block_matches T len b"
      by (auto split: option.splits)
    obtain xs ys where xy: "concat (map slot_list (ra_blocks s)) = xs @ slot_list (ra_blocks s ! i) @ ys"
      "\<And>v. concat (map slot_list ((ra_blocks s)[i := v])) = xs @ slot_list v @ ys"
      using slots_update [OF b(1)] by blast
    show ?thesis
      by (rule hit [of b xs ys])
        (use assms False Some b xy in \<open>auto simp: alloc_cell_def Let_def cached_alt block_matches_def\<close>)
  qed
qed

lemma free_box_cases:
  assumes "free_box b h s = (h', s')"
  obtains (kept) xs ys where "h' = h" "cached s = xs @ ys" "cached s' = xs @ b # ys"
      "length (ra_blocks s') = length (ra_blocks s)"
      "rs_cached_blocks (ra_stats s') = rs_cached_blocks (ra_stats s) + 1"
      "rs_cached_bytes (ra_stats s') = rs_cached_bytes (ra_stats s) + cb_bytes b"
      "rs_peak_cached_bytes (ra_stats s') =
         max (rs_peak_cached_bytes (ra_stats s)) (rs_cached_bytes (ra_stats s) + cb_bytes b)"
      "rs_cached_bytes (ra_stats s) + cb_bytes b \<le> ra_max_cached_bytes s"
      "ra_max_cached_bytes s' = ra_max_cached_bytes s"
  | (dropped) "h' = h(cb_pointer b := None)" "cached s' = cached s" "ra_blocks s' = ra_blocks s"
      "rs_cached_blocks (ra_stats s') = rs_cached_blocks (ra_stats s)"
      "rs_cached_bytes (ra_stats s') = rs_cached_bytes (ra_stats s)"
      "rs_peak_cached_bytes (ra_stats s') = rs_peak_cached_bytes (ra_stats s)"
      "ra_max_cached_bytes s' = ra_max_cached_bytes s"
proof -
  let ?w = "case checked_add (rs_cached_bytes (ra_stats s)) (cb_bytes b) of
      None \<Rightarrow> False | Some bytes \<Rightarrow> bytes \<le> ra_max_cached_bytes s"
  show ?thesis
  proof (cases "if ?w then find_index (\<lambda>slot. slot = None) (ra_blocks s) else None")
    case None
    show ?thesis
      by (rule dropped)
        (use assms None in \<open>auto simp: free_box_def Let_def cached_def drop_cached_block_def\<close>)
  next
    case (Some i)
    then have w: "?w" and f: "find_index (\<lambda>slot. slot = None) (ra_blocks s) = Some i"
      by (auto split: if_splits)
    from find_index_Some [OF f] have i: "i < length (ra_blocks s)" "ra_blocks s ! i = None" by auto
    obtain xs ys where xy: "concat (map slot_list (ra_blocks s)) = xs @ slot_list (ra_blocks s ! i) @ ys"
      "\<And>v. concat (map slot_list ((ra_blocks s)[i := v])) = xs @ slot_list v @ ys"
      using slots_update [OF i(1)] by blast
    have le: "rs_cached_bytes (ra_stats s) + cb_bytes b \<le> ra_max_cached_bytes s"
      using w by (auto simp: checked_add_def split: if_splits)
    show ?thesis
      by (rule kept [of xs ys])
        (use assms w f i xy le in \<open>auto simp: free_box_def Let_def cached_alt\<close>)
  qed
qed


lemma recycler_ok_new:
  "recycler_ok \<lparr> rw_heap = h, rw_alloc = recycling_alloc_new m, rw_owned = [] \<rparr>"
  by (simp add: recycler_ok_def book_ok_def heap_ok_def recycling_alloc_new_def cached_alt zero_stats_def
      map_replicate_const)

lemma heap_ok_upd:
  assumes "p \<notin> set (map cb_pointer cs)" "p \<notin> set (map fst own)"
  shows "heap_ok (h(p := v)) cs own = heap_ok h cs own"
proof -
  have "list_all (live_block (h(p := v))) cs = list_all (live_block h) cs"
    using assms(1) by (induction cs) (auto simp: live_block_def)
  moreover have "list_all (live_box (h(p := v))) own = list_all (live_box h) own"
    using assms(2) by (induction own) (auto simp: live_box_def)
  ultimately show ?thesis by (simp add: heap_ok_def)
qed

lemma heap_ok_mid:
  "heap_ok h (xs @ b # ys) own \<longleftrightarrow> heap_ok h (xs @ ys) own \<and> live_block h b \<and>
     cb_pointer b \<notin> set (map cb_pointer (xs @ ys)) \<and> cb_pointer b \<notin> set (map fst own)"
  by (auto simp: heap_ok_def)

lemma heap_ok_own:
  "heap_ok h cs (us @ pt # vs) \<longleftrightarrow> heap_ok h cs (us @ vs) \<and> live_box h pt \<and>
     fst pt \<notin> set (map cb_pointer cs) \<and> fst pt \<notin> set (map fst (us @ vs))"
  by (auto simp: heap_ok_def)

lemma heap_ok_live:
  "heap_ok h cs own \<Longrightarrow> h p = None \<Longrightarrow> p \<notin> set (map cb_pointer cs) \<and> p \<notin> set (map fst own)"
  by (auto simp: heap_ok_def list_all_iff live_block_def live_box_def)

lemma alloc_ok:
  assumes ok: "recycler_ok w" and fresh: "rw_heap w fresh = None"
    and a: "alloc_cell T len fresh (rw_heap w) (rw_alloc w) = (mem, h', s')"
  shows "recycler_ok \<lparr> rw_heap = h', rw_alloc = s', rw_owned =
      (case mem of None \<Rightarrow> rw_owned w | Some p \<Rightarrow> (p, et_id T) # rw_owned w) \<rparr> \<and>
    (mem = None \<longleftrightarrow> len = 0) \<and>
    (\<forall>p. mem = Some p \<longrightarrow> h' p = Some (et_id T, replicate len (et_default T)) \<and>
       p \<notin> set (map fst (rw_owned w)) \<and> p \<notin> set (map cb_pointer (cached s')) \<and>
       (\<forall>q. q \<noteq> p \<longrightarrow> h' q = rw_heap w q))"
proof -
  from ok have B: "book_ok (rw_alloc w)"
    and H: "heap_ok (rw_heap w) (cached (rw_alloc w)) (rw_owned w)" by (simp_all add: recycler_ok_def)
  have box: "live_box ((rw_heap w)(p \<mapsto> (et_id T, replicate len (et_default T)))) (p, et_id T)"
    if "len > 0" for p using that by (simp add: live_box_def)
  from a show ?thesis
  proof (cases rule: alloc_cell_cases)
    case zero
    with B H show ?thesis by (simp add: recycler_ok_def book_ok_def)
  next
    case (hit xs b ys)
    from H hit(5) have P: "heap_ok (rw_heap w) (xs @ ys) (rw_owned w)"
      "cb_pointer b \<notin> set (map cb_pointer (xs @ ys))" "cb_pointer b \<notin> set (map fst (rw_owned w))"
      by (simp_all add: heap_ok_mid)
    have "book_ok s'" using B hit by (simp add: book_ok_def)
    moreover have "heap_ok h' (xs @ ys) ((cb_pointer b, et_id T) # rw_owned w)"
      using heap_ok_own [of h' "xs @ ys" "[]"] P box [OF hit(1)] hit(4) by (simp add: heap_ok_upd)
    ultimately show ?thesis using P hit by (simp add: recycler_ok_def)
  next
    case miss
    from heap_ok_live [OF H fresh] have P: "fresh \<notin> set (map cb_pointer (cached (rw_alloc w)))"
      "fresh \<notin> set (map fst (rw_owned w))" by simp_all
    have "book_ok s'" using B miss by (simp add: book_ok_def)
    moreover have "heap_ok h' (cached (rw_alloc w)) ((fresh, et_id T) # rw_owned w)"
      using heap_ok_own [of h' "cached (rw_alloc w)" "[]"] P H box [OF miss(1)] miss(3)
      by (simp add: heap_ok_upd)
    ultimately show ?thesis using P miss by (simp add: recycler_ok_def)
  qed
qed

lemma free_ok:
  assumes ok: "recycler_ok w" and own: "(p, et_id T) \<in> set (rw_owned w)"
  obtains h' s' where "free_cell T (Some p) (rw_heap w) (rw_alloc w) = Some (h', s')"
    "recycler_ok \<lparr> rw_heap = h', rw_alloc = s', rw_owned = remove1 (p, et_id T) (rw_owned w) \<rparr>"
proof -
  obtain us vs where o: "rw_owned w = us @ (p, et_id T) # vs" "(p, et_id T) \<notin> set us"
    using split_list_first [OF own] by auto
  then have rm: "remove1 (p, et_id T) (rw_owned w) = us @ vs" by (simp add: remove1_append)
  let ?s = "(rw_alloc w)\<lparr> ra_stats := (ra_stats (rw_alloc w))\<lparr> rs_frees := rs_frees (ra_stats (rw_alloc w)) + 1 \<rparr> \<rparr>"
  from ok have B: "book_ok ?s" by (simp add: recycler_ok_def book_ok_def)
  from ok o have H: "heap_ok (rw_heap w) (cached ?s) (us @ vs)" and L: "live_box (rw_heap w) (p, et_id T)"
    and P: "p \<notin> set (map cb_pointer (cached ?s))" "p \<notin> set (map fst (us @ vs))"
    by (simp_all add: recycler_ok_def heap_ok_own)
  from L obtain data where data: "rw_heap w p = Some (et_id T, data)" "data \<noteq> []"
    by (auto simp: live_box_def)
  let ?b = "from_box T p data"
  have b: "cb_pointer ?b = p" "live_block (rw_heap w) ?b"
    using data by (simp_all add: from_box_def live_block_def)
  obtain h' s' where f: "free_box ?b (rw_heap w) ?s = (h', s')" by fastforce
  from f have "recycler_ok \<lparr> rw_heap = h', rw_alloc = s', rw_owned = us @ vs \<rparr>"
  proof (cases rule: free_box_cases)
    case (kept xs ys)
    with B have "book_ok s'" by (simp add: book_ok_def)
    moreover have "heap_ok h' (xs @ ?b # ys) (us @ vs)" using kept H P b by (simp add: heap_ok_mid)
    ultimately show ?thesis using kept by (simp add: recycler_ok_def)
  next
    case dropped
    with B have "book_ok s'" by (simp add: book_ok_def)
    with dropped P H b show ?thesis by (simp add: recycler_ok_def heap_ok_upd)
  qed
  moreover have "free_cell T (Some p) (rw_heap w) (rw_alloc w) = Some (h', s')"
    using f data by (simp add: free_cell_def Let_def)
  ultimately show ?thesis using that rm by simp
qed

lemma recycler_step_ok: "recycler_step w w' \<Longrightarrow> recycler_ok w \<Longrightarrow> recycler_ok w'"
proof (induction rule: recycler_step.induct)
  case (step_alloc w fresh T len mem h' s')
  then show ?case using alloc_ok by blast
next
  case (step_free p T w h' s')
  then show ?case using free_ok [of w p T] by (metis option.inject prod.inject)
next
  case (step_free_none T w h' s')
  then show ?case by (auto simp: free_cell_def recycler_ok_def book_ok_def cached_def Let_def)
qed

section \<open>Properties\<close>

text \<open>C16: over any run of allocations and frees the recycler's counters describe its cache
  exactly, the cache stays within its slots and byte budget, no box is cached and owned or owned
  twice, and every cached or owned box is live with the type and length recorded for it.\<close>

theorem recycler_invariant:
  assumes "recycler_step\<^sup>*\<^sup>* \<lparr> rw_heap = h, rw_alloc = recycling_alloc_new m, rw_owned = [] \<rparr> w"
  shows "length (cached (rw_alloc w)) \<le> 32 \<and>
    rs_cached_blocks (ra_stats (rw_alloc w)) = length (cached (rw_alloc w)) \<and>
    rs_cached_bytes (ra_stats (rw_alloc w)) = sum_list (map cb_bytes (cached (rw_alloc w))) \<and>
    rs_cached_bytes (ra_stats (rw_alloc w)) \<le> m \<and>
    heap_ok (rw_heap w) (cached (rw_alloc w)) (rw_owned w)"
proof -
  have "recycler_ok w \<and> ra_max_cached_bytes (rw_alloc w) = m"
    using assms
  proof (induction rule: rtranclp_induct)
    case base
    show ?case using recycler_ok_new by (simp add: recycling_alloc_new_def)
  next
    case (step w1 w2)
    have "ra_max_cached_bytes (rw_alloc w2) = ra_max_cached_bytes (rw_alloc w1)"
      using step(2)
    proof cases
      case (step_alloc fresh T len mem h' s')
      from step_alloc(3) step_alloc(1) show ?thesis
        by (cases rule: alloc_cell_cases) auto
    qed (auto simp: free_cell_def free_box_def Let_def split: option.splits if_splits prod.splits)
    with step recycler_step_ok show ?case by auto
  qed
  moreover have "length (cached (rw_alloc w)) \<le> length (ra_blocks (rw_alloc w))"
    by (simp add: cached_def List.map_filter_def)
  ultimately show ?thesis
    by (auto simp: recycler_ok_def book_ok_def BROTLI_RECYCLER_SLOTS_def)
qed

text \<open>A concrete run for the witnesses: one allocation of two elements of a type of four bytes.\<close>

definition sample_type :: "nat element_type" where
  "sample_type = \<lparr> et_id = 1, et_size = 4, et_default = 0 \<rparr>"

definition sample_world :: "nat recycler_world" where
  "sample_world = \<lparr> rw_heap = (\<lambda>_. None)(7 \<mapsto> (1, [0, 0])),
     rw_alloc = (recycling_alloc_new 100)\<lparr> ra_stats :=
       zero_stats\<lparr> rs_allocation_requests := 1, rs_system_allocations := 1 \<rparr> \<rparr>,
     rw_owned = [(7, 1)] \<rparr>"

lemma find_index_replicate: "\<not> p x \<Longrightarrow> find_index p (replicate n x) = None"
  by simp

lemma sample_run:
  "recycler_step\<^sup>*\<^sup>* \<lparr> rw_heap = \<lambda>_. None, rw_alloc = recycling_alloc_new 100, rw_owned = [] \<rparr> sample_world"
proof (rule r_into_rtranclp)
  let ?w = "\<lparr> rw_heap = \<lambda>_. None, rw_alloc = recycling_alloc_new 100, rw_owned = [] \<rparr>"
  have "alloc_cell sample_type 2 7 (rw_heap ?w) (rw_alloc ?w) =
      (Some 7, (\<lambda>_. None)(7 \<mapsto> (1, [0, 0])), rw_alloc sample_world)"
    by (simp add: alloc_cell_def sample_type_def sample_world_def recycling_alloc_new_def
        find_index_replicate zero_stats_def numeral_2_eq_2 Let_def)
  from step_alloc [OF _ this] show "recycler_step ?w sample_world"
    by (simp add: sample_world_def sample_type_def)
qed

theorem recycler_invariant_witness:
  "heap_ok (rw_heap sample_world) (cached (rw_alloc sample_world)) [(7, 1)]"
  using recycler_invariant [OF sample_run] by (simp add: sample_world_def)

text \<open>C9: in every reachable state an allocation of \<open>len\<close> elements returns a box of the
  requested type holding exactly \<open>len\<close> default elements (nothing of an earlier use is visible)
  that no other owner and no cache slot refers to, changes no other box, and every owned box can
  be freed without a use after free.\<close>

theorem recycled_memory_is_fresh:
  assumes "recycler_step\<^sup>*\<^sup>* \<lparr> rw_heap = h, rw_alloc = recycling_alloc_new m, rw_owned = [] \<rparr> w"
    and "rw_heap w fresh = None" "alloc_cell T len fresh (rw_heap w) (rw_alloc w) = (mem, h', s')"
  shows "(mem = None \<longleftrightarrow> len = 0) \<and>
    (\<forall>p. mem = Some p \<longrightarrow> h' p = Some (et_id T, replicate len (et_default T)) \<and>
       p \<notin> set (map fst (rw_owned w)) \<and> p \<notin> set (map cb_pointer (cached s')) \<and>
       (\<forall>q. q \<noteq> p \<longrightarrow> h' q = rw_heap w q)) \<and>
    (\<forall>(p, t)\<in>set (rw_owned w). \<forall>U. et_id U = t \<longrightarrow>
       free_cell U (Some p) (rw_heap w) (rw_alloc w) \<noteq> None)"
proof -
  have ok: "recycler_ok w"
    using assms(1) by (induction rule: rtranclp_induct) (auto simp: recycler_ok_new recycler_step_ok)
  have "free_cell U (Some p) (rw_heap w) (rw_alloc w) \<noteq> None"
    if "(p, et_id U) \<in> set (rw_owned w)" for p U
    using free_ok [OF ok that] by (metis option.distinct(1))
  with alloc_ok [OF ok assms(2,3)] show ?thesis by auto
qed

theorem recycled_memory_is_fresh_witness:
  "fst (alloc_cell sample_type 3 8 (rw_heap sample_world) (rw_alloc sample_world)) \<noteq> Some 7"
proof -
  obtain mem h' s' where a:
    "alloc_cell sample_type 3 8 (rw_heap sample_world) (rw_alloc sample_world) = (mem, h', s')"
    using prod_cases3 by blast
  have "rw_heap sample_world 8 = None" by (simp add: sample_world_def)
  from recycled_memory_is_fresh [OF sample_run this a] a show ?thesis
    by (auto simp: sample_world_def)
qed

end
