(* ===== verification/Admission.thy ===== *)
theory Admission
  imports Prelude
begin

text \<open>
  The contract shared by everything in the host that admits work against a bound: the
  synchronous and asynchronous gates, the Roc executor and the Brotli lanes.  A provider gives
  its step relation, its initial state, an invariant, and the number of active and queued units
  of work; the locale derives that no interleaving of steps exceeds the capacities.
\<close>

locale bounded_admission =
  fixes step :: "'s \<Rightarrow> 's \<Rightarrow> bool"
    and init :: 's
    and ok :: "'s \<Rightarrow> bool"
    and active_of :: "'s \<Rightarrow> nat"
    and queued_of :: "'s \<Rightarrow> nat"
    and capacity :: nat
    and queue_capacity :: nat
  assumes ok_init: "ok init"
    and ok_step: "step s s' \<Longrightarrow> ok s \<Longrightarrow> ok s'"
    and ok_bounds: "ok s \<Longrightarrow> active_of s \<le> capacity \<and> queued_of s \<le> queue_capacity"
begin

lemma reachable_ok: "step\<^sup>*\<^sup>* init s \<Longrightarrow> ok s"
  by (induction rule: rtranclp_induct) (auto intro: ok_init ok_step)

lemma reachable_bounded:
  "step\<^sup>*\<^sup>* init s \<Longrightarrow> active_of s \<le> capacity \<and> queued_of s \<le> queue_capacity"
  using reachable_ok ok_bounds by blast

lemma reachable_from_ok: "step\<^sup>*\<^sup>* s s' \<Longrightarrow> ok s \<Longrightarrow> ok s'"
  by (induction rule: rtranclp_induct) (auto intro: ok_step)

end

end
