(* ===== verification/Bounded_Gate.thy ===== *)
theory Bounded_Gate
  imports Admission "HOL-Library.Multiset"
begin

text \<open>
  \<open>src/src/bounded_gate.rs\<close>: the blocking admission gate for hosted effects and its
  asynchronous sibling.  The blocking gate's critical sections are functions on the state its
  mutex protects; a world adds what the threads and the condition variable hold: the live
  permits, the threads asleep on the condition variable and the threads it has woken that have
  not yet taken the mutex again.  Interleavings of critical sections are a step relation.
\<close>

section \<open>Critical sections\<close>

datatype acquire_error = Saturated | TimedOut

record gate_state =
  gs_active :: nat
  gs_waiting :: nat

record bounded_gate =
  bg_max_active :: nat
  bg_max_waiting :: nat

definition new_gate_state :: gate_state where
  "new_gate_state = \<lparr> gs_active = 0, gs_waiting = 0 \<rparr>"

datatype acquire_outcome = Acquired | Refused acquire_error | Must_Wait

text \<open>From taking the mutex to the loop.\<close>

definition acquire_enter :: "bounded_gate \<Rightarrow> gate_state \<Rightarrow> acquire_outcome \<times> gate_state" where
  "acquire_enter g s =
     (if gs_active s < bg_max_active g then (Acquired, s\<lparr> gs_active := gs_active s + 1 \<rparr>)
      else if gs_waiting s \<ge> bg_max_waiting g then (Refused Saturated, s)
      else (Must_Wait, s\<lparr> gs_waiting := gs_waiting s + 1 \<rparr>))"

text \<open>The head of the loop, up to sleeping on the condition variable.\<close>

definition acquire_loop_head :: "bool \<Rightarrow> gate_state \<Rightarrow> acquire_outcome \<times> gate_state" where
  "acquire_loop_head deadline_passed s =
     (if deadline_passed then (Refused TimedOut, s\<lparr> gs_waiting := gs_waiting s - 1 \<rparr>)
      else (Must_Wait, s))"

text \<open>The rest of the loop's body, after the wait returned with the mutex.\<close>

definition acquire_resume ::
  "bounded_gate \<Rightarrow> bool \<Rightarrow> gate_state \<Rightarrow> acquire_outcome \<times> gate_state" where
  "acquire_resume g timed_out s =
     (if gs_active s < bg_max_active g then
        (Acquired, s\<lparr> gs_waiting := gs_waiting s - 1, gs_active := gs_active s + 1 \<rparr>)
      else if timed_out then (Refused TimedOut, s\<lparr> gs_waiting := gs_waiting s - 1 \<rparr>)
      else (Must_Wait, s))"

datatype notification = Notify_All | Notify_One

definition permit_drop :: "gate_state \<Rightarrow> notification \<times> gate_state" where
  "permit_drop s =
     (let s = s\<lparr> gs_active := gs_active s - 1 \<rparr> in
      (if gs_active s = 0 then Notify_All else Notify_One, s))"

text \<open>One evaluation of the loop of \<open>wait_for_idle\<close>: its result, or another wait.\<close>

definition idle_loop_head :: "bool \<Rightarrow> gate_state \<Rightarrow> bool option" where
  "idle_loop_head deadline_passed s =
     (if gs_active s = 0 then Some True else if deadline_passed then Some False else None)"

definition idle_resume :: "bool \<Rightarrow> gate_state \<Rightarrow> bool option" where
  "idle_resume timed_out s =
     (if timed_out \<and> gs_active s \<noteq> 0 then Some False
      else if gs_active s = 0 then Some True else None)"

section \<open>Interleavings\<close>

datatype waiter = Acquirer nat | Idle_Waiter nat

record gate_world =
  gw_state :: gate_state
  gw_permits :: nat
  gw_asleep :: "waiter multiset"
  gw_woken :: "waiter multiset"

definition gate_start :: gate_world where
  "gate_start = \<lparr> gw_state = new_gate_state, gw_permits = 0, gw_asleep = {#}, gw_woken = {#} \<rparr>"

text \<open>What a thread in \<open>acquire\<close> does with the outcome of a critical section.\<close>

fun after_acquire :: "waiter \<Rightarrow> acquire_outcome \<times> gate_state \<Rightarrow> bool \<Rightarrow> gate_world \<Rightarrow> gate_world" where
  "after_acquire t (Acquired, s) expired w = w\<lparr> gw_state := s, gw_permits := gw_permits w + 1 \<rparr>"
| "after_acquire t (Refused e, s) expired w = w\<lparr> gw_state := s \<rparr>"
| "after_acquire t (Must_Wait, s) expired w =
     (case acquire_loop_head expired s of
        (Must_Wait, s') \<Rightarrow> w\<lparr> gw_state := s', gw_asleep := add_mset t (gw_asleep w) \<rparr>
      | (_, s') \<Rightarrow> w\<lparr> gw_state := s' \<rparr>)"

inductive gate_step :: "bounded_gate \<Rightarrow> gate_world \<Rightarrow> gate_world \<Rightarrow> bool" for g where
  gate_acquire: "gate_step g w (after_acquire (Acquirer n) (acquire_enter g (gw_state w)) expired w)"
| gate_resume: "Acquirer n \<in># gw_woken w \<Longrightarrow>
    gate_step g w (after_acquire (Acquirer n) (acquire_resume g timed_out (gw_state w)) expired
      (w\<lparr> gw_woken := gw_woken w - {#Acquirer n#} \<rparr>))"
| gate_timeout: "t \<in># gw_asleep w \<Longrightarrow>
    gate_step g w (w\<lparr> gw_asleep := gw_asleep w - {#t#}, gw_woken := add_mset t (gw_woken w) \<rparr>)"
| gate_drop_last: "gw_permits w > 0 \<Longrightarrow> permit_drop (gw_state w) = (Notify_All, s) \<Longrightarrow>
    gate_step g w (w\<lparr> gw_state := s, gw_permits := gw_permits w - 1, gw_asleep := {#},
      gw_woken := gw_woken w + gw_asleep w \<rparr>)"
| gate_drop_one: "gw_permits w > 0 \<Longrightarrow> permit_drop (gw_state w) = (Notify_One, s) \<Longrightarrow>
    t \<in># gw_asleep w \<Longrightarrow>
    gate_step g w (w\<lparr> gw_state := s, gw_permits := gw_permits w - 1,
      gw_asleep := gw_asleep w - {#t#}, gw_woken := add_mset t (gw_woken w) \<rparr>)"
| gate_drop_none: "gw_permits w > 0 \<Longrightarrow> permit_drop (gw_state w) = (Notify_One, s) \<Longrightarrow>
    gw_asleep w = {#} \<Longrightarrow>
    gate_step g w (w\<lparr> gw_state := s, gw_permits := gw_permits w - 1 \<rparr>)"
| gate_idle_wait: "idle_loop_head False (gw_state w) = None \<Longrightarrow>
    gate_step g w (w\<lparr> gw_asleep := add_mset (Idle_Waiter n) (gw_asleep w) \<rparr>)"
| gate_idle_resume: "Idle_Waiter n \<in># gw_woken w \<Longrightarrow> idle_resume timed_out (gw_state w) = None \<Longrightarrow>
    gate_step g w (w\<lparr> gw_woken := gw_woken w - {#Idle_Waiter n#},
      gw_asleep := add_mset (Idle_Waiter n) (gw_asleep w) \<rparr>)"
| gate_idle_done: "Idle_Waiter n \<in># gw_woken w \<Longrightarrow> idle_resume timed_out (gw_state w) = Some b \<Longrightarrow>
    gate_step g w (w\<lparr> gw_woken := gw_woken w - {#Idle_Waiter n#} \<rparr>)"
| gate_idle_expired: "Idle_Waiter n \<in># gw_woken w \<Longrightarrow> idle_resume timed_out (gw_state w) = None \<Longrightarrow>
    idle_loop_head True (gw_state w) = Some False \<Longrightarrow>
    gate_step g w (w\<lparr> gw_woken := gw_woken w - {#Idle_Waiter n#} \<rparr>)"

inductive_cases gate_stepE: "gate_step g w w'"

fun is_acquirer :: "waiter \<Rightarrow> bool" where
  "is_acquirer (Acquirer _) = True"
| "is_acquirer (Idle_Waiter _) = False"

definition acquirers :: "waiter multiset \<Rightarrow> nat" where
  "acquirers M = size (filter_mset is_acquirer M)"

definition gate_ok :: "bounded_gate \<Rightarrow> gate_world \<Rightarrow> bool" where
  "gate_ok g w =
     (gs_active (gw_state w) = gw_permits w \<and> gw_permits w \<le> bg_max_active g \<and>
      gs_waiting (gw_state w) = acquirers (gw_asleep w) + acquirers (gw_woken w) \<and>
      gs_waiting (gw_state w) \<le> bg_max_waiting g)"

text \<open>
  A wake-up is lost when a permit is free and a thread that wants it sleeps with nobody woken
  to take it.
\<close>

definition lost_wakeup :: "bounded_gate \<Rightarrow> gate_world \<Rightarrow> bool" where
  "lost_wakeup g w =
     (gs_active (gw_state w) < bg_max_active g \<and> acquirers (gw_asleep w) > 0 \<and> gw_woken w = {#})"

definition no_idle_waiter :: "gate_world \<Rightarrow> bool" where
  "no_idle_waiter w = (\<forall>t\<in>#gw_asleep w + gw_woken w. is_acquirer t)"

definition wakeup_ok :: "bounded_gate \<Rightarrow> gate_world \<Rightarrow> bool" where
  "wakeup_ok g w =
     (no_idle_waiter w \<and>
      (gw_asleep w \<noteq> {#} \<longrightarrow> bg_max_active g - gs_active (gw_state w) \<le> size (gw_woken w)))"

section \<open>Lemmas\<close>

lemma acquirers_simps [simp]:
  "acquirers {#} = 0" "acquirers (add_mset t M) = (if is_acquirer t then 1 else 0) + acquirers M"
  "acquirers (M + N) = acquirers M + acquirers N"
  by (simp_all add: acquirers_def)

lemma acquirers_remove:
  "t \<in># M \<Longrightarrow> acquirers (M - {#t#}) = acquirers M - (if is_acquirer t then 1 else 0)"
  by (auto dest!: multi_member_split)

lemma acquirers_pos: "Acquirer n \<in># M \<Longrightarrow> acquirers M > 0"
  by (auto dest!: multi_member_split)

lemmas gate_defs = acquire_enter_def acquire_loop_head_def acquire_resume_def permit_drop_def
  idle_loop_head_def idle_resume_def Let_def

lemma gate_ok_start: "gate_ok g gate_start"
  by (simp add: gate_ok_def gate_start_def new_gate_state_def)

lemma gate_ok_step: "gate_step g w w' \<Longrightarrow> gate_ok g w \<Longrightarrow> gate_ok g w'"
proof (induction rule: gate_step.induct)
  case (gate_resume n w timed_out expired)
  then have "acquirers (gw_woken w) > 0" by (simp add: acquirers_pos)
  with gate_resume show ?case
    by (cases expired) (auto simp: gate_ok_def gate_defs acquirers_remove split: if_splits)
next
  case (gate_timeout t w)
  then show ?case by (cases t) (auto simp: gate_ok_def acquirers_remove dest: acquirers_pos)
next
  case (gate_drop_one w s t)
  then show ?case
    by (cases t) (auto simp: gate_ok_def permit_drop_def Let_def acquirers_remove dest: acquirers_pos)
qed (auto simp: gate_ok_def gate_defs acquirers_remove split: if_splits)

interpretation gate: bounded_admission "gate_step g" gate_start "gate_ok g" gw_permits
  "\<lambda>w. gs_waiting (gw_state w)" "bg_max_active g" "bg_max_waiting g" for g
proof
  show "gate_ok g gate_start" by (rule gate_ok_start)
  show "gate_step g w w' \<Longrightarrow> gate_ok g w \<Longrightarrow> gate_ok g w'" for w w' by (rule gate_ok_step)
  show "gate_ok g w \<Longrightarrow> gw_permits w \<le> bg_max_active g \<and> gs_waiting (gw_state w) \<le> bg_max_waiting g" for w
    by (simp add: gate_ok_def)
qed

lemma wakeup_ok_start: "wakeup_ok g gate_start"
  by (simp add: wakeup_ok_def gate_start_def no_idle_waiter_def)

lemma no_idle_woken: "no_idle_waiter w \<Longrightarrow> Idle_Waiter n \<notin># gw_woken w"
  by (force simp: no_idle_waiter_def)

lemma wakeup_ok_step:
  "gate_step g w w' \<Longrightarrow> gate_ok g w \<Longrightarrow> no_idle_waiter w' \<Longrightarrow> wakeup_ok g w \<Longrightarrow> wakeup_ok g w'"
proof (induction rule: gate_step.induct)
  case (gate_resume n w timed_out expired)
  then obtain M where "gw_woken w = add_mset (Acquirer n) M" by (auto dest: multi_member_split)
  with gate_resume show ?case
    by (cases expired) (auto simp: wakeup_ok_def gate_defs split: if_splits)
next
  case (gate_timeout t w)
  then show ?case by (auto simp: wakeup_ok_def)
next
  case (gate_drop_one w s t)
  then show ?case by (auto simp: wakeup_ok_def permit_drop_def gate_ok_def Let_def)
next
  case (gate_idle_wait w n)
  then show ?case by (simp add: no_idle_waiter_def)
qed (auto simp: wakeup_ok_def gate_defs dest: no_idle_woken split: if_splits)

lemma wakeup_reachable:
  assumes "(\<lambda>w w'. gate_step g w w' \<and> no_idle_waiter w')\<^sup>*\<^sup>* gate_start w"
  shows "gate_ok g w \<and> wakeup_ok g w"
  using assms
  by (induction rule: rtranclp_induct)
    (auto intro: gate_ok_start wakeup_ok_start gate_ok_step wakeup_ok_step)

section \<open>Properties\<close>

text \<open>C23: whatever the interleaving of acquisitions, wake-ups, time-outs, idle waits and permit
  drops, the gate's counters describe its permits and queued threads exactly and never exceed
  the active and waiting bounds (so the counter of a dropped permit never underflows).\<close>

theorem gate_bounds:
  assumes "(gate_step g)\<^sup>*\<^sup>* gate_start w"
  shows "gs_active (gw_state w) = gw_permits w \<and> gw_permits w \<le> bg_max_active g \<and>
    gs_waiting (gw_state w) = acquirers (gw_asleep w) + acquirers (gw_woken w) \<and>
    gs_waiting (gw_state w) \<le> bg_max_waiting g"
  using gate.reachable_ok [OF assms] by (simp add: gate_ok_def)

theorem gate_bounds_witness:
  "gw_permits (after_acquire (Acquirer 1)
     (acquire_enter \<lparr> bg_max_active = 1, bg_max_waiting = 0 \<rparr> (gw_state gate_start)) False gate_start) \<le> 1"
proof -
  let ?g = "\<lparr> bg_max_active = 1, bg_max_waiting = 0 \<rparr>"
  have "(gate_step ?g)\<^sup>*\<^sup>* gate_start
      (after_acquire (Acquirer 1) (acquire_enter ?g (gw_state gate_start)) False gate_start)"
    by (rule r_into_rtranclp) (rule gate_acquire)
  from gate_bounds [OF this] show ?thesis by simp
qed



definition lost_wakeup_world :: gate_world where
  "lost_wakeup_world = \<lparr> gw_state = \<lparr> gs_active = 1, gs_waiting = 1 \<rparr>, gw_permits = 1,
     gw_asleep = {#Acquirer 3, Idle_Waiter 4#}, gw_woken = {#} \<rparr>"

text \<open>C25: a thread in \<open>wait_for_idle\<close> shares the condition variable with the threads in
  \<open>acquire\<close> and can consume the single notification of a dropped permit: with two active
  permits, one queued acquisition and one idle waiter there is a run to a state in which a permit
  is free, the acquisition sleeps, and no woken thread will take the permit.\<close>

theorem gate_idle_waiter_steals_wakeup:
  "(gate_step \<lparr> bg_max_active = 2, bg_max_waiting = 4 \<rparr>)\<^sup>*\<^sup>* gate_start lost_wakeup_world \<and>
   lost_wakeup \<lparr> bg_max_active = 2, bg_max_waiting = 4 \<rparr> lost_wakeup_world"
proof
  let ?g = "\<lparr> bg_max_active = 2, bg_max_waiting = 4 \<rparr>"
  let ?w = "\<lambda>a q p sl wk. \<lparr> gw_state = \<lparr> gs_active = a, gs_waiting = q \<rparr>, gw_permits = p,
    gw_asleep = sl, gw_woken = wk \<rparr>"
  have 1: "gate_step ?g gate_start (?w 1 0 1 {#} {#})"
    using gate_acquire [of ?g gate_start 1 False]
    by (simp add: gate_start_def new_gate_state_def acquire_enter_def)
  have 2: "gate_step ?g (?w 1 0 1 {#} {#}) (?w 2 0 2 {#} {#})"
    using gate_acquire [of ?g "?w 1 0 1 {#} {#}" 2 False] by (simp add: acquire_enter_def numeral_2_eq_2)
  have 3: "gate_step ?g (?w 2 0 2 {#} {#}) (?w 2 1 2 {#Acquirer 3#} {#})"
    using gate_acquire [of ?g "?w 2 0 2 {#} {#}" 3 False]
    by (simp add: acquire_enter_def acquire_loop_head_def)
  have 4: "gate_step ?g (?w 2 1 2 {#Acquirer 3#} {#}) (?w 2 1 2 {#Acquirer 3, Idle_Waiter 4#} {#})"
    using gate_idle_wait [of "?w 2 1 2 {#Acquirer 3#} {#}" ?g 4]
    by (simp add: idle_loop_head_def add_mset_commute)
  have 5: "gate_step ?g (?w 2 1 2 {#Acquirer 3, Idle_Waiter 4#} {#}) (?w 1 1 1 {#Acquirer 3#} {#Idle_Waiter 4#})"
    using gate_drop_one [of "?w 2 1 2 {#Acquirer 3, Idle_Waiter 4#} {#}" "\<lparr> gs_active = 1, gs_waiting = 1 \<rparr>"
        "Idle_Waiter 4" ?g]
    by (simp add: permit_drop_def)
  have 6: "gate_step ?g (?w 1 1 1 {#Acquirer 3#} {#Idle_Waiter 4#}) lost_wakeup_world"
    using gate_idle_resume [of 4 "?w 1 1 1 {#Acquirer 3#} {#Idle_Waiter 4#}" False ?g]
    by (simp add: idle_resume_def lost_wakeup_world_def add_mset_commute)
  from 1 2 3 4 5 6 show "(gate_step ?g)\<^sup>*\<^sup>* gate_start lost_wakeup_world"
    by (meson rtranclp.rtrancl_into_rtrancl rtranclp.rtrancl_refl)
  show "lost_wakeup ?g lost_wakeup_world" by (simp add: lost_wakeup_def lost_wakeup_world_def)
qed

end
