(* ===== verification/Http_Crate.thy ===== *)
theory Http_Crate
  imports Prelude
begin

text \<open>
  The interface of the third-party \<open>http\<close> crate as the host uses it.  Its header map,
  header value, header name and status code operations are the fields of a record that the
  host's definitions take as a parameter; the locale \<open>http_laws\<close> states the documented
  behaviour the host relies on, and the lemmas every client shares are proved once inside it.
  \<open>list_http\<close> is an association-list header map with the crate's documented checks; its
  interpretation shows that the laws can hold, and witnesses evaluate the host on it.
\<close>

datatype version = HTTP_09 | HTTP_10 | HTTP_11 | HTTP_2 | HTTP_3

record path_and_query =
  pq_str :: string
  pq_path :: string
  pq_query :: "string option"

record uri =
  uri_scheme :: "string option"
  uri_authority :: "string option"
  uri_path_and_query :: "path_and_query option"

definition uri_query :: "uri \<Rightarrow> string option" where
  "uri_query u = (case uri_path_and_query u of None \<Rightarrow> None | Some pq \<Rightarrow> pq_query pq)"

record 'h http_crate =
  hm_new :: "'h"
  hm_iter :: "'h \<Rightarrow> (string \<times> string) list"
  hm_get_all :: "'h \<Rightarrow> string \<Rightarrow> string list"
  hm_get :: "'h \<Rightarrow> string \<Rightarrow> string option"
  hm_contains_key :: "'h \<Rightarrow> string \<Rightarrow> bool"
  hm_len :: "'h \<Rightarrow> nat"
  hm_insert :: "'h \<Rightarrow> string \<Rightarrow> string \<Rightarrow> 'h"
  hm_append :: "'h \<Rightarrow> string \<Rightarrow> string \<Rightarrow> 'h"
  hm_remove :: "'h \<Rightarrow> string \<Rightarrow> 'h"
  hv_to_str :: "string \<Rightarrow> string option"
  hv_from_str :: "string \<Rightarrow> string option"
  hv_from_bytes :: "string \<Rightarrow> string option"
  hn_from_bytes :: "string \<Rightarrow> string option"
  sc_from_u16 :: "nat \<Rightarrow> nat option"

record 'h request_head =
  rq_method :: string
  rq_version :: version
  rq_uri :: uri
  rq_headers :: "'h"

definition visible_ascii :: "char \<Rightarrow> bool" where
  "visible_ascii c = (32 \<le> code c \<and> code c < 127)"

definition header_text :: "char \<Rightarrow> bool" where
  "header_text c = (visible_ascii c \<or> code c = 9)"

definition header_octet :: "char \<Rightarrow> bool" where
  "header_octet c = (32 \<le> code c \<and> code c \<noteq> 127 \<or> code c = 9)"

definition token_char :: "char \<Rightarrow> bool" where
  "token_char c = (is_ascii_alphanumeric c \<or> c \<in> set ''!#$%&*+-.^_`|~'' \<or> code c = 39)"

definition sc_is_informational :: "nat \<Rightarrow> bool" where
  "sc_is_informational s = (100 \<le> s \<and> s < 200)"

definition sc_is_success :: "nat \<Rightarrow> bool" where
  "sc_is_success s = (200 \<le> s \<and> s < 300)"

locale http_laws =
  fixes C :: "'h http_crate"
  assumes get_all_new: "hm_get_all C (hm_new C) k = []"
    and get_all_insert:
      "hm_get_all C (hm_insert C h k v) k' = (if k' = k then [v] else hm_get_all C h k')"
    and get_all_append:
      "hm_get_all C (hm_append C h k v) k' =
         (if k' = k then hm_get_all C h k @ [v] else hm_get_all C h k')"
    and get_all_remove:
      "hm_get_all C (hm_remove C h k) k' = (if k' = k then [] else hm_get_all C h k')"
    and get_first: "hm_get C h k = (case hm_get_all C h k of [] \<Rightarrow> None | v # _ \<Rightarrow> Some v)"
    and contains_key_iff: "hm_contains_key C h k \<longleftrightarrow> hm_get_all C h k \<noteq> []"
    and iter_get_all: "map snd (filter (\<lambda>e. fst e = k) (hm_iter C h)) = hm_get_all C h k"
    and len_iter: "hm_len C h = length (hm_iter C h)"
    and to_str_sound: "hv_to_str C v = Some s \<Longrightarrow> s = v \<and> list_all header_text v"
    and to_str_visible: "list_all visible_ascii v \<Longrightarrow> hv_to_str C v = Some v"
    and from_str_sound: "hv_from_str C s = Some v \<Longrightarrow> v = s \<and> list_all header_text s"
    and from_str_visible: "list_all visible_ascii s \<Longrightarrow> hv_from_str C s = Some s"
    and from_bytes_iff: "hv_from_bytes C s = (if list_all header_octet s then Some s else None)"
    and name_sound:
      "hn_from_bytes C s = Some n \<Longrightarrow> n = to_ascii_lowercase s \<and> s \<noteq> [] \<and> list_all token_char s"
    and name_lower:
      "s \<noteq> [] \<Longrightarrow> list_all (\<lambda>c. is_ascii_lower c \<or> c = CHR ''-'') s \<Longrightarrow> hn_from_bytes C s = Some s"
    and status_iff: "sc_from_u16 C m = (if 100 \<le> m \<and> m \<le> 999 then Some m else None)"
begin

lemmas header_map_simps [simp] =
  get_all_new get_all_insert get_all_append get_all_remove

lemma get_new [simp]: "hm_get C (hm_new C) k = None"
  by (simp add: get_first)

lemma get_insert [simp]: "hm_get C (hm_insert C h k v) k' = (if k' = k then Some v else hm_get C h k')"
  by (simp add: get_first)

lemma get_remove [simp]: "hm_get C (hm_remove C h k) k' = (if k' = k then None else hm_get C h k')"
  by (simp add: get_first)

lemma contains_insert [simp]:
  "hm_contains_key C (hm_insert C h k v) k' \<longleftrightarrow> k' = k \<or> hm_contains_key C h k'"
  by (simp add: contains_key_iff)

lemma contains_append [simp]:
  "hm_contains_key C (hm_append C h k v) k' \<longleftrightarrow> k' = k \<or> hm_contains_key C h k'"
  by (simp add: contains_key_iff)

lemma contains_remove [simp]:
  "hm_contains_key C (hm_remove C h k) k' \<longleftrightarrow> k' \<noteq> k \<and> hm_contains_key C h k'"
  by (simp add: contains_key_iff)

lemma contains_new [simp]: "\<not> hm_contains_key C (hm_new C) k"
  by (simp add: contains_key_iff)

lemma in_iter_iff: "(k, v) \<in> set (hm_iter C h) \<longleftrightarrow> v \<in> set (hm_get_all C h k)"
  unfolding iter_get_all [symmetric] by force

lemma get_Some_all: "hm_get C h k = Some v \<Longrightarrow> v \<in> set (hm_get_all C h k)"
  by (auto simp: get_first split: list.splits)

lemma get_all_length_le: "length (hm_get_all C h k) \<le> hm_len C h"
  unfolding iter_get_all [symmetric] len_iter by simp

lemma to_str_same: "hv_to_str C v = Some s \<Longrightarrow> s = v"
  using to_str_sound by blast

end

section \<open>An association-list header map\<close>

definition list_http :: "(string \<times> string) list http_crate" where
  "list_http = \<lparr>
     hm_new = [],
     hm_iter = (\<lambda>h. h),
     hm_get_all = (\<lambda>h k. map snd (filter (\<lambda>e. fst e = k) h)),
     hm_get = (\<lambda>h k. map_option snd (find (\<lambda>e. fst e = k) h)),
     hm_contains_key = (\<lambda>h k. list_ex (\<lambda>e. fst e = k) h),
     hm_len = length,
     hm_insert = (\<lambda>h k v. filter (\<lambda>e. fst e \<noteq> k) h @ [(k, v)]),
     hm_append = (\<lambda>h k v. h @ [(k, v)]),
     hm_remove = (\<lambda>h k. filter (\<lambda>e. fst e \<noteq> k) h),
     hv_to_str = (\<lambda>v. if list_all header_text v then Some v else None),
     hv_from_str = (\<lambda>s. if list_all header_text s then Some s else None),
     hv_from_bytes = (\<lambda>s. if list_all header_octet s then Some s else None),
     hn_from_bytes = (\<lambda>s. if s \<noteq> [] \<and> list_all token_char s then Some (to_ascii_lowercase s) else None),
     sc_from_u16 = (\<lambda>n. if 100 \<le> n \<and> n \<le> 999 then Some n else None) \<rparr>"

lemma find_filter: "find p xs = (case filter p xs of [] \<Rightarrow> None | x # _ \<Rightarrow> Some x)"
  by (induction xs) auto

lemma lower_token: "is_ascii_lower c \<Longrightarrow> token_char c"
  by (simp add: token_char_def ascii_defs)

lemma lower_name_token:
  "list_all (\<lambda>c. is_ascii_lower c \<or> c = CHR ''-'') s \<Longrightarrow>
     list_all token_char s \<and> to_ascii_lowercase s = s"
  by (induction s)
    (auto simp: lower_token token_char_def to_ascii_lowercase_def ascii_lower_def ascii_defs code_def)

lemma list_all_visible_text: "list_all visible_ascii s \<Longrightarrow> list_all header_text s"
  by (auto simp: list_all_iff header_text_def)

interpretation list_http: http_laws list_http
proof unfold_locales
  show "hm_get list_http h k = (case hm_get_all list_http h k of [] \<Rightarrow> None | v # _ \<Rightarrow> Some v)"
    for h k by (auto simp: list_http_def find_filter split: list.splits)
  show "hm_contains_key list_http h k \<longleftrightarrow> hm_get_all list_http h k \<noteq> []" for h k
    by (auto simp: list_http_def list_ex_iff filter_empty_conv)
  show "hn_from_bytes list_http s = Some n \<Longrightarrow>
      n = to_ascii_lowercase s \<and> s \<noteq> [] \<and> list_all token_char s" for s n
    by (simp add: list_http_def split: if_splits)
  show "s \<noteq> [] \<Longrightarrow> list_all (\<lambda>c. is_ascii_lower c \<or> c = CHR ''-'') s \<Longrightarrow>
      hn_from_bytes list_http s = Some s" for s
    using lower_name_token [of s] by (simp add: list_http_def)
qed (auto simp: list_http_def list_all_visible_text split: if_splits
      intro: filter_cong arg_cong [where f = "map snd"])

end
