(* ===== verification/File_Path.thy ===== *)
theory File_Path
  imports Http_Crate
begin

text \<open>
  The path handling of \<open>src/src/file_server.rs\<close>: percent decoding, the checks on every
  component of a relative path, the walk from a root to a file, and the download name in
  \<open>Content-Disposition\<close>.  The capability-based file system of \<open>cap-primitives\<close> is a
  parameter; the locale \<open>cap_fs_laws\<close> states what opening one plain component means.
\<close>

definition MAX_RELATIVE_PATH_BYTES :: nat where
  "MAX_RELATIVE_PATH_BYTES = 4 * 1024"

definition MAX_DOWNLOAD_NAME_CHARS :: nat where
  "MAX_DOWNLOAD_NAME_CHARS = 150"

datatype path_error =
  Path_Length | Invalid_Component | Truncated_Escape | Invalid_Escape | Encoded_Separator
| Not_Utf8 | Unsafe_Component | Invalid_Root_Id

section \<open>Decoding and validation\<close>

definition hex_value :: "char \<Rightarrow> nat option" where
  "hex_value c =
     (if 48 \<le> code c \<and> code c \<le> 57 then Some (code c - 48)
      else if 97 \<le> code c \<and> code c \<le> 102 then Some (code c - 97 + 10)
      else if 65 \<le> code c \<and> code c \<le> 70 then Some (code c - 65 + 10)
      else None)"

fun percent_decode :: "string \<Rightarrow> path_error + string" where
  "percent_decode [] = Inr []"
| "percent_decode (c # rest) =
     (if c \<noteq> CHR ''%'' then bind_result (percent_decode rest) (\<lambda>out. Inr (c # out))
      else (case rest of
              a # b # rest' \<Rightarrow>
                (case hex_value a of
                   None \<Rightarrow> Inl Invalid_Escape
                 | Some high \<Rightarrow>
                     (case hex_value b of
                        None \<Rightarrow> Inl Invalid_Escape
                      | Some low \<Rightarrow>
                          (let byte = char_of (high * 16 + low) in
                           if byte = CHR ''/'' \<or> byte = CHR 0x5C then Inl Encoded_Separator
                           else bind_result (percent_decode rest') (\<lambda>out. Inr (byte # out)))))
            | _ \<Rightarrow> Inl Truncated_Escape))"

definition validate_decoded_segment :: "string \<Rightarrow> path_error + string" where
  "validate_decoded_segment segment =
     (if segment = [] \<or> segment = ''.'' \<or> segment = ''..'' \<or> starts_with segment ''.'' \<or>
         list_ex (\<lambda>byte. code byte = 0 \<or> byte = CHR 0x5C \<or> byte = CHR '':'' \<or> byte = CHR ''/'') segment
      then Inl Unsafe_Component else Inr segment)"

definition validate_relative_path :: "string \<Rightarrow> path_error + string list" where
  "validate_relative_path relative =
     (if relative = [] \<or> length relative > MAX_RELATIVE_PATH_BYTES then Inl Path_Length
      else map_result validate_decoded_segment (split_on CHR ''/'' relative))"

definition decode_uri_segment :: "string \<Rightarrow> path_error + string" where
  "decode_uri_segment segment =
     (if segment = [] \<or> CHR 0x5C \<in> set segment then Inl Invalid_Component
      else bind_result (percent_decode segment) (\<lambda>bytes.
        if \<not> utf8_valid bytes then Inl Not_Utf8 else validate_decoded_segment bytes))"

definition decode_uri_relative_path :: "string \<Rightarrow> path_error + string list" where
  "decode_uri_relative_path relative =
     (if relative = [] \<or> length relative > MAX_RELATIVE_PATH_BYTES then Inl Path_Length
      else map_result decode_uri_segment (split_on CHR ''/'' relative))"

definition validate_root_id :: "string \<Rightarrow> path_error + unit" where
  "validate_root_id ident =
     (if ident = [] \<or> length ident > 64 \<or>
         \<not> list_all (\<lambda>byte. is_ascii_alphanumeric byte \<or> byte = CHR ''-'' \<or> byte = CHR ''_'') ident
      then Inl Invalid_Root_Id else Inr ())"

section \<open>Opening a file below a root\<close>

record ('d, 'f) cap_fs =
  cf_try_clone :: "'d \<Rightarrow> 'd option"
  cf_open_dir_nofollow :: "'d \<Rightarrow> string \<Rightarrow> 'd option"
  cf_open_nofollow :: "'d \<Rightarrow> string \<Rightarrow> 'f option"

fun open_parents :: "('d, 'f) cap_fs \<Rightarrow> 'd \<Rightarrow> string list \<Rightarrow> 'd option" where
  "open_parents F current [] = Some current"
| "open_parents F current (parent # rest) =
     (case cf_open_dir_nofollow F current parent of
        None \<Rightarrow> None | Some next \<Rightarrow> open_parents F next rest)"

definition open_relative_file :: "('d, 'f) cap_fs \<Rightarrow> 'd \<Rightarrow> string list \<Rightarrow> 'f option" where
  "open_relative_file F root segments =
     (if segments = [] then None
      else (case cf_try_clone F root of
              None \<Rightarrow> None
            | Some current \<Rightarrow>
                (case open_parents F current (butlast segments) of
                   None \<Rightarrow> None
                 | Some directory \<Rightarrow> cf_open_nofollow F directory (last segments))))"

text \<open>A component that names an entry of a directory and nothing else.\<close>

definition plain_component :: "string \<Rightarrow> bool" where
  "plain_component s = (s \<noteq> [] \<and> s \<noteq> ''.'' \<and> s \<noteq> ''..'' \<and>
     (\<forall>c\<in>set s. c \<noteq> CHR ''/'' \<and> c \<noteq> CHR 0x5C \<and> c \<noteq> CHR '':'' \<and> code c \<noteq> 0))"

locale cap_fs_laws =
  fixes F :: "('d, 'f) cap_fs"
    and dir_path :: "'d \<Rightarrow> string list"
    and file_path :: "'f \<Rightarrow> string list"
  assumes clone_path: "cf_try_clone F d = Some d' \<Longrightarrow> dir_path d' = dir_path d"
    and open_dir_path: "plain_component s \<Longrightarrow> cf_open_dir_nofollow F d s = Some d' \<Longrightarrow>
      dir_path d' = dir_path d @ [s]"
    and open_file_path: "plain_component s \<Longrightarrow> cf_open_nofollow F d s = Some f \<Longrightarrow>
      file_path f = dir_path d @ [s]"
begin

lemma open_parents_path:
  "open_parents F d ps = Some d' \<Longrightarrow> \<forall>p\<in>set ps. plain_component p \<Longrightarrow> dir_path d' = dir_path d @ ps"
  by (induction ps arbitrary: d) (auto split: option.splits dest: open_dir_path)

lemma open_relative_file_path:
  assumes "open_relative_file F root segs = Some f" "\<forall>p\<in>set segs. plain_component p"
  shows "file_path f = dir_path root @ segs"
proof -
  from assms(1) obtain d d' where n: "segs \<noteq> []" and d: "cf_try_clone F root = Some d"
    "open_parents F d (butlast segs) = Some d'" "cf_open_nofollow F d' (last segs) = Some f"
    by (auto simp: open_relative_file_def split: if_splits option.splits)
  have "dir_path d' = dir_path root @ butlast segs"
    using open_parents_path [OF d(2)] clone_path [OF d(1)] assms(2) by (metis in_set_butlastD)
  moreover have "plain_component (last segs)" using assms(2) n by simp
  ultimately show ?thesis using open_file_path d(3) n by (metis append.assoc append_butlast_last_id)
qed

end

text \<open>A file system whose directories and files are known by their paths.\<close>

definition path_fs :: "string list set \<Rightarrow> string list set \<Rightarrow> (string list, string list) cap_fs" where
  "path_fs dirs files = \<lparr>
     cf_try_clone = Some,
     cf_open_dir_nofollow = (\<lambda>d s. if d @ [s] \<in> dirs then Some (d @ [s]) else None),
     cf_open_nofollow = (\<lambda>d s. if d @ [s] \<in> files then Some (d @ [s]) else None) \<rparr>"

interpretation path_fs: cap_fs_laws "path_fs dirs files" "\<lambda>d. d" "\<lambda>f. f"
  by unfold_locales (auto simp: path_fs_def split: if_splits)

section \<open>Download names\<close>

definition hex_digit_upper :: "nat \<Rightarrow> char" where
  "hex_digit_upper n = (if n < 10 then char_of (48 + n) else char_of (55 + n))"

definition ext_value_char :: "char \<Rightarrow> bool" where
  "ext_value_char c = (is_ascii_alphanumeric c \<or> c = CHR ''-'' \<or> c = CHR ''.'' \<or> c = CHR ''_'')"

definition percent_encode :: "string \<Rightarrow> string" where
  "percent_encode s =
     concat (map (\<lambda>byte. if ext_value_char byte then [byte]
                         else [CHR ''%'', hex_digit_upper (code byte div 16), hex_digit_upper (code byte mod 16)]) s)"

text \<open>The characters of a UTF-8 string: a lead byte with the continuation bytes after it.\<close>

function utf8_chars :: "string \<Rightarrow> string list" where
  "utf8_chars [] = []"
| "utf8_chars (a # s) = (a # takeWhile is_cont s) # utf8_chars (dropWhile is_cont s)"
  by pat_completeness auto
termination
  by (relation "measure length") (auto simp: le_imp_less_Suc length_dropWhile_le)

definition fallback_char :: "char \<Rightarrow> bool" where
  "fallback_char c = (is_ascii_alphanumeric c \<or> c = CHR '' '' \<or> c = CHR ''-'' \<or> c = CHR ''_'' \<or> c = CHR ''.'')"

definition attachment_fallback :: "string list \<Rightarrow> string" where
  "attachment_fallback bounded =
     (let fallback = map (\<lambda>ch. if length ch = 1 \<and> fallback_char (hd ch) then hd ch else CHR ''_'') bounded in
      if fallback = [] then ''download'' else fallback)"

definition attachment_header :: "string \<Rightarrow> string" where
  "attachment_header name =
     (let bounded = take MAX_DOWNLOAD_NAME_CHARS (utf8_chars name) in
      ''attachment; filename='' @ [CHR 0x22] @ attachment_fallback bounded @ [CHR 0x22] @
      ''; filename*=UTF-8'' @ [CHR 0x27, CHR 0x27] @ percent_encode (concat bounded))"

section \<open>Lemmas\<close>

lemma hex_value_upper: "n < 16 \<Longrightarrow> hex_value (hex_digit_upper n) = Some n"
  by (simp add: hex_value_def hex_digit_upper_def)

lemma hex_value_bound: "hex_value c = Some n \<Longrightarrow> n < 16"
  by (auto simp: hex_value_def split: if_splits)

lemma ext_value_char_plain: "ext_value_char c \<Longrightarrow> c \<noteq> CHR ''%'' \<and> c \<noteq> CHR ''/'' \<and> c \<noteq> CHR 0x5C"
  by (auto simp: ext_value_char_def ascii_defs code_def)

lemma code_nibbles: "char_of (code c div 16 * 16 + code c mod 16) = c"
  by (simp add: code_def)

lemma nibble_lt: "code c div 16 < 16" "code c mod 16 < 16"
  using code_lt [of c] by linarith+

lemma percent_encode_simps [simp]:
  "percent_encode [] = []"
  "percent_encode (c # s) = (if ext_value_char c then [c]
     else [CHR ''%'', hex_digit_upper (code c div 16), hex_digit_upper (code c mod 16)]) @ percent_encode s"
  by (simp_all add: percent_encode_def)

lemma percent_decode_encode:
  "CHR ''/'' \<notin> set s \<Longrightarrow> CHR 0x5C \<notin> set s \<Longrightarrow> percent_decode (percent_encode s) = Inr s"
proof (induction s)
  case (Cons c s)
  then show ?case
    using ext_value_char_plain [of c] nibble_lt [of c] code_nibbles [of c]
    by (auto simp: hex_value_upper Let_def)
qed simp

lemma hex_digit_upper_alnum: "n < 16 \<Longrightarrow> is_ascii_alphanumeric (hex_digit_upper n)"
  by (simp add: hex_digit_upper_def ascii_defs)

lemma percent_encode_chars: "c \<in> set (percent_encode s) \<Longrightarrow> ext_value_char c \<or> c = CHR ''%''"
proof (induction s)
  case (Cons d s)
  then show ?case using nibble_lt [of d] by (auto simp: hex_digit_upper_alnum ext_value_char_def split: if_splits)
qed simp

lemma percent_encode_empty [simp]: "percent_encode s = [] \<longleftrightarrow> s = []"
  by (cases s) auto

lemma validate_decoded_segment_iff:
  "validate_decoded_segment s = Inr t \<longleftrightarrow> t = s \<and> plain_component s \<and> hd s \<noteq> CHR ''.''"
proof -
  have "list_ex (\<lambda>byte. code byte = 0 \<or> byte = CHR 0x5C \<or> byte = CHR '':'' \<or> byte = CHR ''/'') s \<longleftrightarrow>
      \<not> (\<forall>c\<in>set s. c \<noteq> CHR ''/'' \<and> c \<noteq> CHR 0x5C \<and> c \<noteq> CHR '':'' \<and> code c \<noteq> 0)"
    by (auto simp: list_ex_iff)
  moreover have "s \<noteq> [] \<Longrightarrow> starts_with s ''.'' \<longleftrightarrow> hd s = CHR ''.''"
    by (cases s) (simp_all add: starts_with_def)
  ultimately show ?thesis
    by (auto simp: validate_decoded_segment_def plain_component_def)
qed

lemma decode_uri_segment_iff:
  "decode_uri_segment s = Inr t \<longleftrightarrow> s \<noteq> [] \<and> CHR 0x5C \<notin> set s \<and> percent_decode s = Inr t \<and>
     utf8_valid t \<and> plain_component t \<and> hd t \<noteq> CHR ''.''"
  by (auto simp: decode_uri_segment_def validate_decoded_segment_iff split: if_splits)

lemma decode_uri_relative_path_Inr:
  "decode_uri_relative_path raw = Inr segs \<longleftrightarrow> raw \<noteq> [] \<and> length raw \<le> MAX_RELATIVE_PATH_BYTES \<and>
     list_all2 (\<lambda>s t. decode_uri_segment s = Inr t) (split_on CHR ''/'' raw) segs"
  by (auto simp: decode_uri_relative_path_def map_result_eq_Inr)

lemma utf8_chars_concat [simp]: "concat (utf8_chars s) = s"
  by (induction s rule: utf8_chars.induct) simp_all

lemma fallback_visible: "fallback_char c \<Longrightarrow> visible_ascii c"
  by (auto simp: fallback_char_def visible_ascii_def ascii_defs code_def)

lemma ext_value_visible: "ext_value_char c \<Longrightarrow> visible_ascii c"
  by (auto simp: ext_value_char_def visible_ascii_def ascii_defs code_def)

lemma percent_encode_visible: "list_all visible_ascii (percent_encode s)"
proof -
  have "visible_ascii CHR ''%''" by code_simp
  then show ?thesis using percent_encode_chars ext_value_visible by (fastforce simp: list_all_iff)
qed

text \<open>The quoted fallback name has no quote or backslash and at most 150 characters.\<close>

lemma attachment_fallback_chars:
  "c \<in> set (attachment_fallback bounded) \<Longrightarrow> fallback_char c"
  "length (attachment_fallback (take n cs)) \<le> max n 8"
proof -
  have "fallback_char CHR ''_''" "list_all fallback_char ''download''" by code_simp+
  then show "c \<in> set (attachment_fallback bounded) \<Longrightarrow> fallback_char c"
    by (auto simp: attachment_fallback_def Let_def list_all_iff split: if_splits)
  show "length (attachment_fallback (take n cs)) \<le> max n 8"
    by (auto simp: attachment_fallback_def Let_def)
qed

lemma attachment_header_visible: "list_all visible_ascii (attachment_header name)"
proof -
  have "list_all visible_ascii ''attachment; filename=''" "list_all visible_ascii ''; filename*=UTF-8''"
    "visible_ascii CHR 0x22" "visible_ascii CHR 0x27" by code_simp+
  then show ?thesis
    using attachment_fallback_chars(1) fallback_visible
    by (auto simp: attachment_header_def Let_def percent_encode_visible) (auto simp: list_all_iff)
qed

section \<open>Properties\<close>

text \<open>C5: no request path escapes its root.  When the URI path below a mounted root is accepted,
  its components are exactly the percent-decoded components of the path, each is a well-formed
  UTF-8 file name without separators, NUL or drive markers that is not hidden and not a dot
  component; and the file that is opened for it lies exactly at these components below the root.\<close>

theorem served_file_below_root:
  assumes "cap_fs_laws F dir_path file_path"
    and "decode_uri_relative_path raw = Inr segs"
    and "open_relative_file F root segs = Some f"
  shows "segs \<noteq> [] \<and> map percent_decode (split_on CHR ''/'' raw) = map Inr segs \<and>
    (\<forall>s\<in>set segs. plain_component s \<and> hd s \<noteq> CHR ''.'' \<and> utf8_valid s) \<and>
    file_path f = dir_path root @ segs"
proof -
  have a: "list_all2 (\<lambda>s t. decode_uri_segment s = Inr t) (split_on CHR ''/'' raw) segs"
    using assms(2) by (simp add: decode_uri_relative_path_Inr)
  then have "segs \<noteq> []" by auto
  moreover have "map percent_decode (split_on CHR ''/'' raw) = map Inr segs"
    using a by (induction rule: list_all2_induct) (auto simp: decode_uri_segment_iff)
  moreover have s: "\<forall>s\<in>set segs. plain_component s \<and> hd s \<noteq> CHR ''.'' \<and> utf8_valid s"
    using a by (induction rule: list_all2_induct) (auto simp: decode_uri_segment_iff)
  moreover have "file_path f = dir_path root @ segs"
    using cap_fs_laws.open_relative_file_path [OF assms(1,3)] s by blast
  ultimately show ?thesis by blast
qed

theorem served_file_below_root_witness:
  "decode_uri_relative_path ''css/a%20b.css'' = Inr [''css'', ''a b.css''] \<and>
   open_relative_file (path_fs {[''www''], [''www'', ''css'']} {[''www'', ''css'', ''a b.css'']}) [''www'']
     [''css'', ''a b.css''] = Some ([''www''] @ [''css'', ''a b.css''])"
proof -
  have d: "decode_uri_relative_path ''css/a%20b.css'' = Inr [''css'', ''a b.css'']" by code_simp
  have o: "open_relative_file (path_fs {[''www''], [''www'', ''css'']} {[''www'', ''css'', ''a b.css'']}) [''www'']
     [''css'', ''a b.css''] = Some [''www'', ''css'', ''a b.css'']"
    by (simp add: open_relative_file_def path_fs_def)
  from served_file_below_root [OF path_fs.cap_fs_laws_axioms d o] d o show ?thesis by simp
qed

text \<open>C30: every file that may be served has a URL.  Percent-encoding the components of a safe
  relative path and joining them with slashes gives a URI path that decodes back to exactly those
  components, as long as it is within the length limit.\<close>

theorem encoded_path_decodes:
  assumes "segs \<noteq> []" "\<forall>s\<in>set segs. plain_component s \<and> hd s \<noteq> CHR ''.'' \<and> utf8_valid s"
    and "length (join_with CHR ''/'' (map percent_encode segs)) \<le> MAX_RELATIVE_PATH_BYTES"
  shows "decode_uri_relative_path (join_with CHR ''/'' (map percent_encode segs)) = Inr segs"
proof -
  have enc: "decode_uri_segment (percent_encode s) = Inr s" if "s \<in> set segs" for s
  proof -
    have p: "plain_component s" using assms(2) that by blast
    then have "percent_decode (percent_encode s) = Inr s" "percent_encode s \<noteq> []"
      by (auto simp: plain_component_def intro!: percent_decode_encode)
    moreover have "CHR 0x5C \<notin> set (percent_encode s)"
      using percent_encode_chars [of "CHR 0x5C" s] ext_value_char_plain [of "CHR 0x5C"] by auto
    ultimately show ?thesis using assms(2) that by (simp add: decode_uri_segment_iff)
  qed
  have "split_on CHR ''/'' (join_with CHR ''/'' (map percent_encode segs)) = map percent_encode segs"
    by (rule split_join) (use assms(1) percent_encode_chars [of "CHR ''/''"] ext_value_char_plain [of "CHR ''/''"] in auto)
  moreover have "list_all2 (\<lambda>s t. decode_uri_segment s = Inr t) (map percent_encode segs) segs"
    using enc by (simp add: list_all2_conv_all_nth)
  moreover have "join_with CHR ''/'' (map percent_encode segs) \<noteq> []"
    using assms(1,2) by (cases segs; cases "tl segs") (auto simp: plain_component_def)
  ultimately show ?thesis using assms(3) by (simp add: decode_uri_relative_path_Inr)
qed

theorem encoded_path_decodes_witness:
  "decode_uri_relative_path (join_with CHR ''/'' (map percent_encode [''a dir'', ''b%.txt''])) =
     Inr [''a dir'', ''b%.txt'']"
proof (rule encoded_path_decodes)
  show "\<forall>s\<in>set [''a dir'', ''b%.txt'']. plain_component s \<and> hd s \<noteq> CHR ''.'' \<and> utf8_valid s" by code_simp
  show "length (join_with CHR ''/'' (map percent_encode [''a dir'', ''b%.txt''])) \<le> MAX_RELATIVE_PATH_BYTES"
    by code_simp
qed simp

end
