(* ===== verification/Compression.thy ===== *)
theory Compression
  imports Http_Crate
begin

text \<open>
  \<open>src/src/compression.rs\<close>: content-coding negotiation from \<open>Accept-Encoding\<close>, the
  decision whether a response may be compressed, the header changes that go with a coding, and
  one step of the resumable Brotli encoder.  The encoder itself is third-party code and is a
  parameter.  Weights are in thousandths, as in the code.
\<close>

definition MIN_COMPRESSION_BYTES :: nat where
  "MIN_COMPRESSION_BYTES = 1024"

definition MAX_BUFFERED_COMPRESSION_BYTES :: nat where
  "MAX_BUFFERED_COMPRESSION_BYTES = 8 * 1024 * 1024"

datatype content_coding = Zstandard | Brotli | Gzip

datatype streaming_content_coding = SC_Identity | SC_Brotli | SC_NotAcceptable

fun coding_str :: "content_coding \<Rightarrow> string" where
  "coding_str Zstandard = ''zstd''"
| "coding_str Brotli = ''br''"
| "coding_str Gzip = ''gzip''"

record accepted_encodings =
  ae_present :: bool
  ae_zstandard :: nat
  ae_brotli :: nat
  ae_gzip :: nat
  ae_identity :: nat
  ae_identity_explicit :: bool

record encoding_member =
  em_name :: string
  em_weight :: nat

section \<open>Parsing Accept-Encoding\<close>

fun times_ten :: "nat \<Rightarrow> nat \<Rightarrow> nat" where
  "times_ten 0 v = v"
| "times_ten (Suc n) v = times_ten n (v * 10)"

definition parse_quality :: "string \<Rightarrow> nat option" where
  "parse_quality raw =
     (case unwrap_or (split_once CHR ''.'' raw) (raw, []) of (whole, fractional) \<Rightarrow>
        if length fractional > 3 \<or> \<not> list_all is_ascii_digit fractional then None
        else if whole = ''0'' then
          Some (times_ten (3 - length fractional) (unwrap_or (parse_u16 fractional) 0))
        else if whole = ''1'' \<and> list_all (\<lambda>b. b = CHR ''0'') fractional then Some 1000
        else None)"

definition is_coding_name_char :: "char \<Rightarrow> bool" where
  "is_coding_name_char b =
     (is_ascii_alphanumeric b \<or> b = CHR ''!'' \<or> (35 \<le> code b \<and> code b \<le> 39) \<or>
      b \<in> {CHR ''*'', CHR ''+'', CHR ''-'', CHR ''.'', CHR ''^'', CHR ''_'', CHR ''`'', CHR ''|'',
           CHR ''~''})"

fun parse_parameters :: "string list \<Rightarrow> nat \<Rightarrow> nat option" where
  "parse_parameters [] weight = Some weight"
| "parse_parameters (parameter # rest) weight =
     (case split_once CHR ''='' (trim parameter) of
        None \<Rightarrow> None
      | Some (parameter_name, value) \<Rightarrow>
          if \<not> eq_ignore_ascii_case (trim parameter_name) ''q'' then None
          else (case parse_quality (trim value) of
                  None \<Rightarrow> None
                | Some w \<Rightarrow> parse_parameters rest w))"

definition parse_member :: "string \<Rightarrow> encoding_member option" where
  "parse_member raw =
     (case split_on CHR '';'' raw of
        [] \<Rightarrow> None
      | first # parameters \<Rightarrow>
          let name = trim first in
          if name = [] \<or> \<not> list_all is_coding_name_char name then None
          else (case parse_parameters parameters 1000 of
                  None \<Rightarrow> None
                | Some w \<Rightarrow> Some \<lparr> em_name = name, em_weight = w \<rparr>))"

text \<open>The five mutable options of \<open>AcceptedEncodings::from_headers\<close>.\<close>

record coding_weights =
  cw_zstandard :: "nat option"
  cw_brotli :: "nat option"
  cw_gzip :: "nat option"
  cw_identity :: "nat option"
  cw_wildcard :: "nat option"

definition raise_weight :: "nat \<Rightarrow> nat option \<Rightarrow> nat option" where
  "raise_weight w target = Some (max (unwrap_or target 0) w)"

definition add_member :: "coding_weights \<Rightarrow> encoding_member \<Rightarrow> coding_weights" where
  "add_member s m =
     (if eq_ignore_ascii_case (em_name m) ''zstd'' then
        s\<lparr> cw_zstandard := raise_weight (em_weight m) (cw_zstandard s) \<rparr>
      else if eq_ignore_ascii_case (em_name m) ''br'' then
        s\<lparr> cw_brotli := raise_weight (em_weight m) (cw_brotli s) \<rparr>
      else if eq_ignore_ascii_case (em_name m) ''gzip'' \<or>
              eq_ignore_ascii_case (em_name m) ''x-gzip'' then
        s\<lparr> cw_gzip := raise_weight (em_weight m) (cw_gzip s) \<rparr>
      else if eq_ignore_ascii_case (em_name m) ''identity'' then
        s\<lparr> cw_identity := raise_weight (em_weight m) (cw_identity s) \<rparr>
      else if em_name m = ''*'' then
        s\<lparr> cw_wildcard := raise_weight (em_weight m) (cw_wildcard s) \<rparr>
      else s)"

definition accept_members :: "'h http_crate \<Rightarrow> 'h \<Rightarrow> encoding_member list" where
  "accept_members C headers =
     concat (map (\<lambda>value. case hv_to_str C value of
                    None \<Rightarrow> []
                  | Some text \<Rightarrow> List.map_filter parse_member (split_on CHR '','' text))
       (hm_get_all C headers ''accept-encoding''))"

definition from_headers :: "'h http_crate \<Rightarrow> 'h \<Rightarrow> accepted_encodings" where
  "from_headers C headers =
     (if \<not> hm_contains_key C headers ''accept-encoding'' then
        \<lparr> ae_present = False, ae_zstandard = 0, ae_brotli = 0, ae_gzip = 0, ae_identity = 1000,
          ae_identity_explicit = False \<rparr>
      else
        (let w = foldl add_member
                   \<lparr> cw_zstandard = None, cw_brotli = None, cw_gzip = None, cw_identity = None,
                     cw_wildcard = None \<rparr> (accept_members C headers);
             wildcard_weight = unwrap_or (cw_wildcard w) 0 in
         \<lparr> ae_present = True,
           ae_zstandard = unwrap_or (cw_zstandard w) wildcard_weight,
           ae_brotli = unwrap_or (cw_brotli w) wildcard_weight,
           ae_gzip = unwrap_or (cw_gzip w) wildcard_weight,
           ae_identity = unwrap_or (cw_identity w) (if cw_wildcard w = Some 0 then 0 else 1000),
           ae_identity_explicit = (cw_identity w \<noteq> None) \<rparr>))"

section \<open>Selection\<close>

definition coding_weight :: "accepted_encodings \<Rightarrow> content_coding \<Rightarrow> nat" where
  "coding_weight a c =
     (case c of Zstandard \<Rightarrow> ae_zstandard a | Brotli \<Rightarrow> ae_brotli a | Gzip \<Rightarrow> ae_gzip a)"

definition preferred :: "accepted_encodings \<Rightarrow> content_coding option" where
  "preferred a =
     (if \<not> ae_present a then None
      else (case foldl (\<lambda>(selected, selected_weight) (coding, weight).
                      if weight > selected_weight then (Some coding, weight)
                      else (selected, selected_weight))
                   (None, 0)
                   [(Zstandard, ae_zstandard a), (Brotli, ae_brotli a), (Gzip, ae_gzip a)] of
              (selected, selected_weight) \<Rightarrow>
                if selected_weight = 0 \<or>
                   (ae_identity_explicit a \<and> ae_identity a > selected_weight)
                then None else selected))"

definition preferred_streaming :: "accepted_encodings \<Rightarrow> streaming_content_coding" where
  "preferred_streaming a =
     (if \<not> ae_present a then SC_Identity
      else if ae_brotli a \<noteq> 0 \<and> \<not> (ae_identity_explicit a \<and> ae_identity a > ae_brotli a)
      then SC_Brotli
      else if ae_identity a \<noteq> 0 then SC_Identity
      else SC_NotAcceptable)"

section \<open>Which responses may be compressed\<close>

definition cache_control_has_no_transform :: "'h http_crate \<Rightarrow> 'h \<Rightarrow> bool" where
  "cache_control_has_no_transform C headers =
     list_ex (\<lambda>value. case hv_to_str C value of
                None \<Rightarrow> False
              | Some text \<Rightarrow>
                  list_ex (\<lambda>directive. eq_ignore_ascii_case (trim directive) ''no-transform'')
                    (split_on CHR '','' text))
       (hm_get_all C headers ''cache-control'')"

definition content_type_is_compressible :: "'h http_crate \<Rightarrow> 'h \<Rightarrow> bool" where
  "content_type_is_compressible C headers =
     (case (case hm_get C headers ''content-type'' of None \<Rightarrow> None | Some v \<Rightarrow> hv_to_str C v) of
        None \<Rightarrow> True
      | Some raw \<Rightarrow>
          let media_type = to_ascii_lowercase (trim (hd (split_on CHR '';'' raw))) in
          if media_type = ''image/svg+xml'' then True
          else if starts_with media_type ''image/'' \<or> starts_with media_type ''audio/'' \<or>
                  starts_with media_type ''video/'' \<or> starts_with media_type ''font/''
          then False
          else media_type \<notin> {''application/gzip'', ''application/octet-stream'',
                 ''application/pdf'', ''application/x-7z-compressed'', ''application/x-bzip2'',
                 ''application/x-gzip'', ''application/x-rar-compressed'', ''application/zip'',
                 ''application/zstd''})"

definition response_is_compressible :: "'h http_crate \<Rightarrow> nat \<Rightarrow> 'h \<Rightarrow> nat \<Rightarrow> bool" where
  "response_is_compressible C status headers body_bytes =
     (body_bytes \<ge> MIN_COMPRESSION_BYTES \<and>
      \<not> sc_is_informational status \<and> status \<noteq> 204 \<and> status \<noteq> 205 \<and> status \<noteq> 304 \<and>
      status \<noteq> 206 \<and>
      \<not> hm_contains_key C headers ''content-encoding'' \<and>
      \<not> hm_contains_key C headers ''content-range'' \<and>
      \<not> hm_contains_key C headers ''etag'' \<and>
      \<not> hm_contains_key C headers ''content-md5'' \<and>
      \<not> hm_contains_key C headers ''digest'' \<and>
      \<not> hm_contains_key C headers ''content-digest'' \<and>
      \<not> cache_control_has_no_transform C headers \<and>
      content_type_is_compressible C headers)"

section \<open>Header changes\<close>

definition varies_on_accept_encoding :: "'h http_crate \<Rightarrow> 'h \<Rightarrow> bool" where
  "varies_on_accept_encoding C headers =
     list_ex (\<lambda>value. case hv_to_str C value of
                None \<Rightarrow> False
              | Some text \<Rightarrow>
                  list_ex (\<lambda>name. trim name = ''*'' \<or>
                             eq_ignore_ascii_case (trim name) ''accept-encoding'')
                    (split_on CHR '','' text))
       (hm_get_all C headers ''vary'')"

definition vary_on_accept_encoding :: "'h http_crate \<Rightarrow> 'h \<Rightarrow> 'h" where
  "vary_on_accept_encoding C headers =
     (if varies_on_accept_encoding C headers then headers
      else hm_append C headers ''vary'' ''Accept-Encoding'')"

definition apply_content_coding ::
  "'h http_crate \<Rightarrow> 'h \<Rightarrow> content_coding \<Rightarrow> nat option \<Rightarrow> 'h" where
  "apply_content_coding C headers coding encoded_length =
     (let headers = hm_insert C (vary_on_accept_encoding C headers) ''content-encoding''
                      (coding_str coding) in
      case encoded_length of
        Some n \<Rightarrow> hm_insert C headers ''content-length'' (to_decimal n)
      | None \<Rightarrow> hm_remove C headers ''content-length'')"

definition encoded_etag :: "string \<Rightarrow> content_coding \<Rightarrow> string" where
  "encoded_etag etag coding =
     (case strip_suffix etag [CHR 0x22] of
        Some prefix \<Rightarrow> prefix @ ''-'' @ coding_str coding @ [CHR 0x22]
      | None \<Rightarrow> etag)"

section \<open>One step of the resumable encoder\<close>

datatype brotli_operation = BROTLI_PROCESS | BROTLI_FLUSH | BROTLI_FINISH

record brotli_encoder_step =
  bs_input_consumed :: nat
  bs_output_written :: nat
  bs_complete :: bool

datatype brotli_error =
  Empty_Output_Reservation | Input_Offset_Exceeds_Input | Encoder_Rejected_Input
| Encoder_Made_No_Progress

text \<open>
  The \<open>brotli\<close> crate: \<open>compress_stream\<close> takes the operation, the input, the offset of the
  first byte not yet consumed and the free output capacity, and returns whether the call was
  valid, the new encoder, the new offset and the bytes it wrote.
\<close>

record 'e brotli_crate =
  be_compress_stream ::
    "'e \<Rightarrow> brotli_operation \<Rightarrow> string \<Rightarrow> nat \<Rightarrow> nat \<Rightarrow> bool \<times> 'e \<times> nat \<times> string"
  be_has_more_output :: "'e \<Rightarrow> bool"
  be_stream_processing :: "'e \<Rightarrow> bool"
  be_is_finished :: "'e \<Rightarrow> bool"

definition brotli_operation_step ::
  "'e brotli_crate \<Rightarrow> 'e \<Rightarrow> brotli_operation \<Rightarrow> string \<Rightarrow> nat \<Rightarrow> nat \<Rightarrow>
     brotli_error + brotli_encoder_step \<times> 'e \<times> nat \<times> string" where
  "brotli_operation_step B state operation input input_offset output_len =
     (if output_len = 0 then Inl Empty_Output_Reservation
      else if input_offset > length input then Inl Input_Offset_Exceeds_Input
      else (case be_compress_stream B state operation input input_offset output_len of
              (valid, state', offset', output) \<Rightarrow>
                if \<not> valid then Inl Encoder_Rejected_Input
                else
                  (let available_in = length input - offset';
                       complete = (case operation of
                           BROTLI_PROCESS \<Rightarrow> available_in = 0 \<and> \<not> be_has_more_output B state'
                         | BROTLI_FLUSH \<Rightarrow> available_in = 0 \<and> \<not> be_has_more_output B state' \<and>
                             be_stream_processing B state'
                         | BROTLI_FINISH \<Rightarrow> be_is_finished B state');
                       step = \<lparr> bs_input_consumed = offset' - input_offset,
                                bs_output_written = length output, bs_complete = complete \<rparr> in
                   if \<not> bs_complete step \<and> bs_input_consumed step = 0 \<and> bs_output_written step = 0
                   then Inl Encoder_Made_No_Progress
                   else Inr (step, state', offset', output))))"

section \<open>Lemmas\<close>

lemma times_ten_pow [simp]: "times_ten n v = v * 10 ^ n"
  by (induction n v rule: times_ten.induct) simp_all

lemma decimal_value_bound: "list_all is_ascii_digit ds \<Longrightarrow> decimal_value ds < 10 ^ length ds"
proof (induction ds rule: rev_induct)
  case (snoc d ds)
  then have "digit_value d < 10" by (auto simp: digit_value_def is_ascii_digit_def)
  with snoc show ?case by simp
qed simp

lemma parse_u16_digits:
  assumes "list_all is_ascii_digit ds" "length ds \<le> 3"
  shows "unwrap_or (parse_u16 ds) 0 = decimal_value ds"
proof (cases "ds = []")
  case False
  have "decimal_value ds < 10 ^ 3"
    using decimal_value_bound [OF assms(1)] power_increasing [OF assms(2), of "10::nat"] by simp
  with False assms show ?thesis by (simp add: parse_uint_digits parse_digits_def unwrap_or_def)
qed (simp add: parse_uint_def unwrap_or_def)

text \<open>The \<open>qvalue\<close> grammar of RFC 9110, with its value in thousandths.\<close>

definition qvalue :: "string \<Rightarrow> nat \<Rightarrow> bool" where
  "qvalue raw w =
     (\<exists>whole ds. (raw = whole \<and> ds = [] \<or> raw = whole @ CHR ''.'' # ds) \<and>
        length ds \<le> 3 \<and> list_all is_ascii_digit ds \<and>
        (whole = ''0'' \<and> w * 10 ^ length ds = 1000 * decimal_value ds \<or>
         whole = ''1'' \<and> list_all (\<lambda>b. b = CHR ''0'') ds \<and> w = 1000))"

lemma thousandths:
  assumes "n \<le> 3"
  shows "(w::nat) * 10 ^ n = 1000 * v \<longleftrightarrow> w = v * 10 ^ (3 - n)"
proof -
  from assms consider "n = 0" | "n = 1" | "n = 2" | "n = 3" by linarith
  then show ?thesis by cases auto
qed

lemma parse_quality_split:
  assumes "CHR ''.'' \<notin> set whole" "raw = whole \<and> ds = [] \<or> raw = whole @ CHR ''.'' # ds"
  shows "unwrap_or (split_once CHR ''.'' raw) (raw, []) = (whole, ds)"
  using assms split_once_Some [of "CHR ''.''" raw whole ds] split_once_None [of "CHR ''.''" raw]
  by (auto simp: unwrap_or_def)

lemma parse_quality_iff: "parse_quality raw = Some w \<longleftrightarrow> qvalue raw w"
proof
  assume A: "parse_quality raw = Some w"
  obtain whole ds where wd: "unwrap_or (split_once CHR ''.'' raw) (raw, []) = (whole, ds)"
    by (cases "unwrap_or (split_once CHR ''.'' raw) (raw, [])")
  then have "raw = whole \<and> ds = [] \<or> raw = whole @ CHR ''.'' # ds"
    by (cases "split_once CHR ''.'' raw") (auto simp: unwrap_or_def split_once_Some)
  moreover from A wd have "length ds \<le> 3" "list_all is_ascii_digit ds"
    by (auto simp: parse_quality_def split: if_splits)
  ultimately show "qvalue raw w"
    using A wd unfolding qvalue_def
    by (intro exI [of _ whole] exI [of _ ds])
      (auto simp: parse_quality_def parse_u16_digits thousandths split: if_splits)
next
  assume "qvalue raw w"
  then obtain whole ds where w: "raw = whole \<and> ds = [] \<or> raw = whole @ CHR ''.'' # ds"
    "length ds \<le> 3" "list_all is_ascii_digit ds"
    "whole = ''0'' \<and> w * 10 ^ length ds = 1000 * decimal_value ds \<or>
     whole = ''1'' \<and> list_all (\<lambda>b. b = CHR ''0'') ds \<and> w = 1000"
    unfolding qvalue_def by blast
  then have "CHR ''.'' \<notin> set whole" by auto
  from parse_quality_split [OF this w(1)] w(2-4) show "parse_quality raw = Some w"
    by (auto simp: parse_quality_def parse_u16_digits thousandths)
qed

lemma qvalue_le: "qvalue raw w \<Longrightarrow> w \<le> 1000"
proof -
  assume "qvalue raw w"
  then obtain ds where ds: "list_all is_ascii_digit ds" "w * 10 ^ length ds = 1000 * decimal_value ds \<or> w = 1000"
    unfolding qvalue_def by blast
  have "w \<le> 1000" if w: "w * 10 ^ length ds = 1000 * decimal_value ds"
  proof -
    have "1000 * decimal_value ds \<le> 1000 * 10 ^ length ds"
      using decimal_value_bound [OF ds(1)] by simp
    then have "w * 10 ^ length ds \<le> 1000 * 10 ^ length ds" by (simp only: w)
    then show ?thesis by (simp only: mult_le_cancel2) simp
  qed
  with ds(2) show "w \<le> 1000" by auto
qed

lemma parse_parameters_le: "parse_parameters ps w = Some v \<Longrightarrow> w \<le> 1000 \<Longrightarrow> v \<le> 1000"
proof (induction ps arbitrary: w)
  case (Cons p ps)
  then show ?case
    by (auto simp: parse_quality_iff split: option.splits if_splits) (metis qvalue_le)
qed simp

lemma parse_member_le: "parse_member raw = Some m \<Longrightarrow> em_weight m \<le> 1000"
  by (auto simp: parse_member_def Let_def dest: parse_parameters_le split: list.splits if_splits option.splits)

lemma accept_members_le: "m \<in> set (accept_members C h) \<Longrightarrow> em_weight m \<le> 1000"
  by (auto simp: accept_members_def List.map_filter_def parse_member_le split: option.splits)

text \<open>
  The specification of the negotiation: the weight a list of members gives to the codings
  with a name \<open>p\<close> is the largest weight of such a member.
\<close>

definition best :: "(string \<Rightarrow> bool) \<Rightarrow> encoding_member list \<Rightarrow> nat option" where
  "best p ms =
     (if \<exists>m\<in>set ms. p (em_name m) then Some (Max (em_weight ` {m \<in> set ms. p (em_name m)}))
      else None)"

definition names_coding :: "content_coding \<Rightarrow> string \<Rightarrow> bool" where
  "names_coding c n =
     (case c of
        Zstandard \<Rightarrow> eq_ignore_ascii_case n ''zstd''
      | Brotli \<Rightarrow> eq_ignore_ascii_case n ''br''
      | Gzip \<Rightarrow> eq_ignore_ascii_case n ''gzip'' \<or> eq_ignore_ascii_case n ''x-gzip'')"

definition names_identity :: "string \<Rightarrow> bool" where
  "names_identity n = eq_ignore_ascii_case n ''identity''"

definition names_any :: "string \<Rightarrow> bool" where
  "names_any n = (n = ''*'')"

definition accept_quality :: "encoding_member list \<Rightarrow> content_coding \<Rightarrow> nat" where
  "accept_quality ms c = unwrap_or (best (names_coding c) ms) (unwrap_or (best names_any ms) 0)"

definition identity_quality :: "encoding_member list \<Rightarrow> nat" where
  "identity_quality ms =
     unwrap_or (best names_identity ms) (if best names_any ms = Some 0 then 0 else 1000)"

lemma best_Nil [simp]: "best p [] = None"
  by (simp add: best_def)

lemma best_snoc:
  "best p (ms @ [m]) = (if p (em_name m) then raise_weight (em_weight m) (best p ms) else best p ms)"
proof -
  let ?S = "{x \<in> set ms. p (em_name x)}"
  have ins: "{x \<in> set (ms @ [m]). p (em_name x)} = (if p (em_name m) then insert m ?S else ?S)"
    by auto
  show ?thesis
  proof (cases "?S = {}")
    case True
    then have none: "best p ms = None" by (auto simp: best_def)
    have "best p (ms @ [m]) = (if p (em_name m) then Some (em_weight m) else None)"
      unfolding best_def ins True using True by auto
    with none show ?thesis by (simp add: raise_weight_def unwrap_or_def)
  next
    case False
    then have "Max (insert (em_weight m) (em_weight ` ?S)) = max (Max (em_weight ` ?S)) (em_weight m)"
      by (simp add: max.commute)
    with False show ?thesis unfolding best_def ins by (auto simp: raise_weight_def unwrap_or_def)
  qed
qed

lemma coding_names_exclusive:
  "\<not> (names_coding c n \<and> names_coding c' n \<and> c \<noteq> c')"
  "\<not> (names_coding c n \<and> names_identity n)" "\<not> (names_coding c n \<and> names_any n)"
  "\<not> (names_identity n \<and> names_any n)"
  by (cases c; cases c'; auto simp: names_coding_def names_identity_def names_any_def
      eq_ignore_ascii_case_def ascii_lower_def is_ascii_upper_def code_def)+


lemma add_member_names:
  "add_member s m =
     (if names_coding Zstandard (em_name m) then
        s\<lparr> cw_zstandard := raise_weight (em_weight m) (cw_zstandard s) \<rparr>
      else if names_coding Brotli (em_name m) then
        s\<lparr> cw_brotli := raise_weight (em_weight m) (cw_brotli s) \<rparr>
      else if names_coding Gzip (em_name m) then
        s\<lparr> cw_gzip := raise_weight (em_weight m) (cw_gzip s) \<rparr>
      else if names_identity (em_name m) then
        s\<lparr> cw_identity := raise_weight (em_weight m) (cw_identity s) \<rparr>
      else if names_any (em_name m) then
        s\<lparr> cw_wildcard := raise_weight (em_weight m) (cw_wildcard s) \<rparr>
      else s)"
  by (simp add: add_member_def names_coding_def names_identity_def names_any_def)

lemma add_members_best:
  "foldl add_member \<lparr> cw_zstandard = None, cw_brotli = None, cw_gzip = None, cw_identity = None,
     cw_wildcard = None \<rparr> ms =
   \<lparr> cw_zstandard = best (names_coding Zstandard) ms, cw_brotli = best (names_coding Brotli) ms,
     cw_gzip = best (names_coding Gzip) ms, cw_identity = best names_identity ms,
     cw_wildcard = best names_any ms \<rparr>"
proof (induction ms rule: rev_induct)
  case (snoc m ms)
  note ex = coding_names_exclusive [where n = "em_name m"]
  show ?case
    using ex(1) [of Zstandard Brotli] ex(1) [of Zstandard Gzip] ex(1) [of Brotli Gzip]
      ex(2) [of Zstandard] ex(2) [of Brotli] ex(2) [of Gzip]
      ex(3) [of Zstandard] ex(3) [of Brotli] ex(3) [of Gzip] ex(4)
    by (simp add: snoc best_snoc add_member_names [where m = m])
qed simp

lemma from_headers_spec:
  assumes "hm_contains_key C h ''accept-encoding''"
  shows "from_headers C h =
    \<lparr> ae_present = True, ae_zstandard = accept_quality (accept_members C h) Zstandard,
      ae_brotli = accept_quality (accept_members C h) Brotli,
      ae_gzip = accept_quality (accept_members C h) Gzip,
      ae_identity = identity_quality (accept_members C h),
      ae_identity_explicit = (best names_identity (accept_members C h) \<noteq> None) \<rparr>"
  using assms
  by (simp add: from_headers_def add_members_best Let_def accept_quality_def identity_quality_def)

lemma best_le: "best p ms = Some w \<Longrightarrow> (\<And>m. m \<in> set ms \<Longrightarrow> em_weight m \<le> b) \<Longrightarrow> w \<le> b"
  by (auto simp: best_def split: if_splits intro!: Max.boundedI)

lemma best_accept_le: "best p (accept_members C h) = Some w \<Longrightarrow> w \<le> 1000"
  by (erule best_le) (rule accept_members_le)

lemma accept_quality_le: "accept_quality (accept_members C h) c \<le> 1000"
  by (simp add: accept_quality_def unwrap_or_def best_accept_le split: option.split)

lemma preferred_Some:
  "preferred a = Some c \<longleftrightarrow> ae_present a \<and> coding_weight a c > 0 \<and>
     (\<forall>c'. coding_weight a c' \<le> coding_weight a c) \<and>
     (\<forall>c'. coding_weight a c' = coding_weight a c \<longrightarrow>
        (case c of Zstandard \<Rightarrow> True | Brotli \<Rightarrow> c' \<noteq> Zstandard | Gzip \<Rightarrow> c' = Gzip)) \<and>
     (ae_identity_explicit a \<longrightarrow> ae_identity a \<le> coding_weight a c)"
proof -
  have all: "(\<forall>c'. P c') \<longleftrightarrow> P Zstandard \<and> P Brotli \<and> P Gzip" for P
    by (metis content_coding.exhaust)
  show ?thesis
    unfolding all by (cases c) (auto simp: preferred_def coding_weight_def split: if_splits)
qed

lemma preferred_None:
  "preferred a = None \<longleftrightarrow> \<not> ae_present a \<or> (\<forall>c. coding_weight a c = 0) \<or>
     (ae_identity_explicit a \<and> (\<forall>c. coding_weight a c < ae_identity a))"
proof -
  have all: "(\<forall>c'. P c') \<longleftrightarrow> P Zstandard \<and> P Brotli \<and> P Gzip" for P
    by (metis content_coding.exhaust)
  show ?thesis
    unfolding all by (auto simp: preferred_def coding_weight_def split: if_splits)
qed

context http_laws
begin

lemma vary_covers: "varies_on_accept_encoding C (vary_on_accept_encoding C h)"
proof (cases "varies_on_accept_encoding C h")
  case False
  have "list_all visible_ascii ''Accept-Encoding''" by code_simp
  then have "hv_to_str C ''Accept-Encoding'' = Some ''Accept-Encoding''" by (rule to_str_visible)
  moreover have "split_on CHR '','' ''Accept-Encoding'' = [''Accept-Encoding'']"
    "eq_ignore_ascii_case (trim ''Accept-Encoding'') ''accept-encoding''" by code_simp+
  ultimately show ?thesis
    using False by (simp add: vary_on_accept_encoding_def varies_on_accept_encoding_def)
qed (simp add: vary_on_accept_encoding_def)

lemma get_all_vary:
  "k \<noteq> ''vary'' \<Longrightarrow> hm_get_all C (vary_on_accept_encoding C h) k = hm_get_all C h k"
  by (simp add: vary_on_accept_encoding_def)

lemma get_all_apply:
  "hm_get_all C (apply_content_coding C h c n) k =
     (if k = ''content-length'' then (case n of None \<Rightarrow> [] | Some m \<Rightarrow> [to_decimal m])
      else if k = ''content-encoding'' then [coding_str c]
      else hm_get_all C (vary_on_accept_encoding C h) k)"
  by (auto simp: apply_content_coding_def Let_def split: option.splits)

lemma varies_cong:
  "hm_get_all C h ''vary'' = hm_get_all C h' ''vary'' \<Longrightarrow>
     varies_on_accept_encoding C h = varies_on_accept_encoding C h'"
  by (simp add: varies_on_accept_encoding_def)

end

section \<open>Properties\<close>



text \<open>C17: a streaming response is refused as not acceptable exactly when the client forbids
  both representations it can have; Brotli is chosen exactly when its quality is positive and
  the client did not name identity with a larger one.\<close>

theorem streaming_coding_spec:
  assumes "http_laws C" "hm_get_all C h ''accept-encoding'' \<noteq> []"
  shows "(preferred_streaming (from_headers C h) = SC_NotAcceptable \<longleftrightarrow>
      accept_quality (accept_members C h) Brotli = 0 \<and> identity_quality (accept_members C h) = 0) \<and>
    (preferred_streaming (from_headers C h) = SC_Brotli \<longleftrightarrow>
      accept_quality (accept_members C h) Brotli > 0 \<and>
      (best names_identity (accept_members C h) \<noteq> None \<longrightarrow>
        identity_quality (accept_members C h) \<le> accept_quality (accept_members C h) Brotli))"
proof -
  have "hm_contains_key C h ''accept-encoding''"
    using assms http_laws.contains_key_iff [OF assms(1)] by simp
  then show ?thesis by (auto simp: preferred_streaming_def from_headers_spec)
qed

theorem streaming_coding_spec_witness:
  "preferred_streaming (from_headers list_http [(''accept-encoding'', ''gzip, identity;q=0'')]) =
     SC_NotAcceptable"
proof -
  have "hm_get_all list_http [(''accept-encoding'', ''gzip, identity;q=0'')] ''accept-encoding'' \<noteq> []"
    "accept_quality (accept_members list_http [(''accept-encoding'', ''gzip, identity;q=0'')]) Brotli = 0"
    "identity_quality (accept_members list_http [(''accept-encoding'', ''gzip, identity;q=0'')]) = 0"
    by code_simp+
  with streaming_coding_spec [OF list_http.http_laws_axioms] show ?thesis by blast
qed

text \<open>C18: \<open>parse_quality\<close> accepts exactly the quality values of RFC 9110 (0 or 1, with at
  most three decimals, the decimals of 1 all zero), returns their value in thousandths, and so
  never exceeds 1000.\<close>

theorem parse_quality_grammar:
  "(parse_quality raw = Some w \<longleftrightarrow> qvalue raw w) \<and> (\<forall>v. parse_quality raw = Some v \<longrightarrow> v \<le> 1000)"
  using parse_quality_iff qvalue_le by blast

theorem parse_quality_grammar_witness: "qvalue ''0.75'' 750 \<and> (750::nat) \<le> 1000"
proof -
  have "parse_quality ''0.75'' = Some 750" by code_simp
  with parse_quality_grammar [of "''0.75''" 750] show ?thesis by blast
qed



end
