(* ===== verification/File_Conditions.thy ===== *)
theory File_Conditions
  imports Compression
begin

text \<open>
  Conditional and range requests of \<open>src/src/file_server.rs\<close>: entity tags, the precondition
  fields, \<open>If-Range\<close> and \<open>Range\<close>.  A time is its distance from the Unix epoch in
  nanoseconds; the formatting and parsing of HTTP dates by \<open>httpdate\<close> is a parameter, with
  its documented behaviour in \<open>http_date_laws\<close>.
\<close>

type_synonym system_time = int

record http_date =
  hd_fmt :: "system_time \<Rightarrow> string option"
  hd_parse :: "string \<Rightarrow> system_time option"

definition NANOS_PER_SEC :: int where
  "NANOS_PER_SEC = 1000000000"

text \<open>
  A formatted date is visible ASCII text and denotes its time to the second; \<open>None\<close> is a
  date that cannot be formatted.
\<close>

locale http_date_laws =
  fixes D :: http_date
  assumes fmt_visible: "hd_fmt D t = Some s \<Longrightarrow> list_all visible_ascii s"
    and parse_fmt: "hd_fmt D t = Some s \<Longrightarrow> 0 \<le> t \<and> hd_parse D s = Some (t - t mod NANOS_PER_SEC)"

definition decimal_date :: http_date where
  "decimal_date = \<lparr>
     hd_fmt = (\<lambda>t. if 0 \<le> t \<and> nat (t div NANOS_PER_SEC) \<le> u64_max
                   then Some (to_decimal (nat (t div NANOS_PER_SEC))) else None),
     hd_parse = (\<lambda>s. map_option (\<lambda>n. int n * NANOS_PER_SEC) (parse_u64 s)) \<rparr>"

lemma digits_visible_ascii: "list_all is_ascii_digit s \<Longrightarrow> list_all visible_ascii s"
  by (auto simp: list_all_iff visible_ascii_def ascii_defs)

interpretation decimal_date: http_date_laws decimal_date
proof unfold_locales
  show "hd_fmt decimal_date t = Some s \<Longrightarrow> list_all visible_ascii s" for t s
    by (auto simp: decimal_date_def digits_visible_ascii split: if_splits)
  show "hd_fmt decimal_date t = Some s \<Longrightarrow>
      0 \<le> t \<and> hd_parse decimal_date s = Some (t - t mod NANOS_PER_SEC)" for t s
    by (auto simp: decimal_date_def NANOS_PER_SEC_def minus_mod_eq_div_mult split: if_splits)
qed

section \<open>Entity tags\<close>

definition hex_digit_lower :: "nat \<Rightarrow> char" where
  "hex_digit_lower n = (if n < 10 then char_of (48 + n) else char_of (87 + n))"

fun to_hex :: "nat \<Rightarrow> string" where
  "to_hex n = (if n < 16 then [hex_digit_lower n] else to_hex (n div 16) @ [hex_digit_lower (n mod 16)])"

declare to_hex.simps [simp del]

definition modified_nanos :: "system_time option \<Rightarrow> nat" where
  "modified_nanos modified =
     (case modified of None \<Rightarrow> 0 | Some t \<Rightarrow> if t < 0 then 0 else nat t)"

definition weak_etag :: "nat \<Rightarrow> system_time option \<Rightarrow> string" where
  "weak_etag n modified =
     ''W/'' @ [CHR 0x22] @ to_hex n @ ''-'' @ to_hex (modified_nanos modified) @ [CHR 0x22]"

definition strip_weak :: "string \<Rightarrow> string" where
  "strip_weak value = unwrap_or (strip_prefix value ''W/'') value"

section \<open>Preconditions\<close>

definition etag_candidate_matches :: "string \<Rightarrow> bool \<Rightarrow> string \<Rightarrow> bool" where
  "etag_candidate_matches current weak raw_candidate =
     (let candidate = trim raw_candidate in
      candidate = ''*'' \<or>
      (if weak then
         strip_weak candidate = strip_weak current \<and> ends_with candidate [CHR 0x22] \<and> CHR 0x22 \<in> set candidate
       else \<not> starts_with candidate ''W/'' \<and> candidate = current))"

definition etag_condition_matches ::
  "'h http_crate \<Rightarrow> 'h \<Rightarrow> string \<Rightarrow> string \<Rightarrow> bool \<Rightarrow> bool" where
  "etag_condition_matches C headers name current weak =
     list_ex (\<lambda>value. case hv_to_str C value of
                None \<Rightarrow> False
              | Some raw \<Rightarrow> list_ex (etag_candidate_matches current weak) (split_on CHR '','' raw))
       (hm_get_all C headers name)"

definition parse_http_date :: "'h http_crate \<Rightarrow> http_date \<Rightarrow> string \<Rightarrow> system_time option" where
  "parse_http_date C D value =
     (case hv_to_str C value of None \<Rightarrow> None | Some raw \<Rightarrow> hd_parse D raw)"

definition unix_seconds :: "system_time \<Rightarrow> nat" where
  "unix_seconds t = (if t < 0 then 0 else nat (t div NANOS_PER_SEC))"

definition is_later :: "system_time \<Rightarrow> system_time \<Rightarrow> bool" where
  "is_later left right = (unix_seconds left > unix_seconds right)"

definition date_field ::
  "'h http_crate \<Rightarrow> http_date \<Rightarrow> 'h \<Rightarrow> string \<Rightarrow> system_time option \<Rightarrow> (system_time \<times> system_time) option" where
  "date_field C D headers name modified =
     (case (hm_get C headers name, modified) of
        (Some value, Some modified) \<Rightarrow>
          (case parse_http_date C D value of None \<Rightarrow> None | Some date \<Rightarrow> Some (modified, date))
      | _ \<Rightarrow> None)"

definition precondition_status ::
  "'h http_crate \<Rightarrow> http_date \<Rightarrow> 'h \<Rightarrow> string \<Rightarrow> system_time option \<Rightarrow> string \<Rightarrow> nat option" where
  "precondition_status C D headers etag modified method =
     (if hm_contains_key C headers ''if-match'' \<and> \<not> etag_condition_matches C headers ''if-match'' etag False
      then Some 412
      else if \<not> hm_contains_key C headers ''if-match'' \<and>
              (case date_field C D headers ''if-unmodified-since'' modified of
                 None \<Rightarrow> False | Some (modified, date) \<Rightarrow> is_later modified date)
      then Some 412
      else if hm_contains_key C headers ''if-none-match'' then
        (if etag_condition_matches C headers ''if-none-match'' etag True
         then Some (if method = ''GET'' \<or> method = ''HEAD'' then 304 else 412)
         else None)
      else if method = ''GET'' \<or> method = ''HEAD'' then
        (case date_field C D headers ''if-modified-since'' modified of
           None \<Rightarrow> None
         | Some (modified, date) \<Rightarrow> if \<not> is_later modified date then Some 304 else None)
      else None)"

definition if_range_allows ::
  "'h http_crate \<Rightarrow> http_date \<Rightarrow> 'h \<Rightarrow> string \<Rightarrow> system_time option \<Rightarrow> bool" where
  "if_range_allows C D headers etag modified =
     (case hm_get C headers ''if-range'' of
        None \<Rightarrow> True
      | Some value \<Rightarrow>
          (case hv_to_str C value of
             None \<Rightarrow> False
           | Some raw \<Rightarrow>
               if starts_with raw [CHR 0x22] \<or> starts_with raw ''W/'' then
                 \<not> starts_with raw ''W/'' \<and> \<not> starts_with etag ''W/'' \<and> raw = etag
               else (case (hd_parse D raw, modified) of
                       (Some date, Some modified) \<Rightarrow> \<not> is_later modified date
                     | _ \<Rightarrow> False)))"

section \<open>Ranges\<close>

datatype range_selection = Range_Ignore | Range_Unsatisfiable | Range_Bytes nat nat

definition parse_byte_range :: "string \<Rightarrow> string \<Rightarrow> nat \<Rightarrow> range_selection" where
  "parse_byte_range first final n =
     (if first = [] then
        (case parse_u64 final of
           None \<Rightarrow> Range_Ignore
         | Some suffix \<Rightarrow>
             if suffix = 0 \<or> n = 0 then Range_Unsatisfiable
             else Range_Bytes (n - suffix) (n - 1))
      else (case parse_u64 first of
              None \<Rightarrow> Range_Ignore
            | Some start \<Rightarrow>
                if start \<ge> n then Range_Unsatisfiable
                else if final = [] then Range_Bytes start (n - 1)
                else (case parse_u64 final of
                        None \<Rightarrow> Range_Ignore
                      | Some stop \<Rightarrow>
                          if start > stop then Range_Ignore
                          else Range_Bytes start (min stop (n - 1)))))"

definition parse_range :: "'h http_crate \<Rightarrow> 'h \<Rightarrow> nat \<Rightarrow> range_selection" where
  "parse_range C headers n =
     (case hm_get_all C headers ''range'' of
        [value] \<Rightarrow>
          (case hv_to_str C value of
             None \<Rightarrow> Range_Ignore
           | Some raw \<Rightarrow>
               (case strip_prefix raw ''bytes='' of
                  None \<Rightarrow> Range_Ignore
                | Some spec \<Rightarrow>
                    if CHR '','' \<in> set spec then Range_Ignore
                    else (case split_once CHR ''-'' spec of
                            None \<Rightarrow> Range_Ignore
                          | Some (first, final) \<Rightarrow> parse_byte_range first final n)))
      | _ \<Rightarrow> Range_Ignore)"

section \<open>Lemmas\<close>

definition lower_hex_digit :: "char \<Rightarrow> bool" where
  "lower_hex_digit c = (48 \<le> code c \<and> code c \<le> 57 \<or> 97 \<le> code c \<and> code c \<le> 102)"

definition hex_digit_value :: "char \<Rightarrow> nat" where
  "hex_digit_value c = (if code c \<le> 57 then code c - 48 else code c - 87)"

lemma hex_digit_lower_ok: "n < 16 \<Longrightarrow> lower_hex_digit (hex_digit_lower n) \<and> hex_digit_value (hex_digit_lower n) = n"
  by (auto simp: hex_digit_lower_def lower_hex_digit_def hex_digit_value_def)

lemma to_hex_digits: "list_all lower_hex_digit (to_hex n)"
  by (induction n rule: to_hex.induct) (subst to_hex.simps, auto simp: hex_digit_lower_ok)

lemma to_hex_value: "foldl (\<lambda>n c. 16 * n + hex_digit_value c) 0 (to_hex n) = n"
proof (induction n rule: to_hex.induct)
  case (1 n)
  then show ?case by (subst to_hex.simps) (auto simp: hex_digit_lower_ok)
qed

lemma to_hex_inj [simp]: "to_hex m = to_hex n \<longleftrightarrow> m = n"
  by (metis to_hex_value)

lemma lower_hex_digit_plain:
  "lower_hex_digit c \<Longrightarrow> c \<noteq> CHR '','' \<and> c \<noteq> CHR ''-'' \<and> c \<noteq> CHR 0x22 \<and> \<not> is_white c \<and> visible_ascii c"
  by (auto simp: lower_hex_digit_def code_def is_white_def visible_ascii_def)

lemma append_separator_eq:
  "list_all p a \<Longrightarrow> list_all p a' \<Longrightarrow> \<not> p c \<Longrightarrow> a @ c # b = a' @ c # b' \<longleftrightarrow> a = a' \<and> b = b'"
  by (induction a arbitrary: a') (auto simp: Cons_eq_append_conv, (case_tac a', auto)+)

text \<open>Files that differ in length or modification time have different tags.\<close>

lemma weak_etag_inj:
  "weak_etag n t = weak_etag n' t' \<longleftrightarrow> n = n' \<and> modified_nanos t = modified_nanos t'"
proof -
  have "\<not> lower_hex_digit CHR ''-''" by code_simp
  then show ?thesis
    using append_separator_eq [OF to_hex_digits to_hex_digits, of "CHR ''-''"] by (simp add: weak_etag_def)
qed

text \<open>What the tags of the host look like: weak, quoted, and a single list member.\<close>

definition host_etag :: "string \<Rightarrow> bool" where
  "host_etag e \<longleftrightarrow> (\<exists>body. e = ''W/'' @ [CHR 0x22] @ body @ [CHR 0x22] \<and>
     list_all (\<lambda>c. visible_ascii c \<and> \<not> is_white c \<and> c \<noteq> CHR '','') body)"

lemma weak_etag_host: "host_etag (weak_etag n t)"
proof -
  have d: "visible_ascii CHR ''-'' \<and> \<not> is_white CHR ''-''" by code_simp
  have "weak_etag n t = ''W/'' @ [CHR 0x22] @ (to_hex n @ ''-'' @ to_hex (modified_nanos t)) @ [CHR 0x22]"
    by (simp add: weak_etag_def)
  moreover have "list_all (\<lambda>c. visible_ascii c \<and> \<not> is_white c \<and> c \<noteq> CHR '','')
      (to_hex n @ ''-'' @ to_hex (modified_nanos t))"
    using to_hex_digits lower_hex_digit_plain d by (fastforce simp: list_all_iff)
  ultimately show ?thesis unfolding host_etag_def by blast
qed

lemma encoded_etag_host:
  assumes "host_etag e"
  shows "host_etag (encoded_etag e coding)"
proof -
  from assms obtain body where b: "e = ''W/'' @ [CHR 0x22] @ body @ [CHR 0x22]"
    "list_all (\<lambda>c. visible_ascii c \<and> \<not> is_white c \<and> c \<noteq> CHR '','') body"
    by (auto simp: host_etag_def)
  have "strip_suffix e [CHR 0x22] = Some (''W/'' @ [CHR 0x22] @ body)"
    by (simp add: strip_suffix_Some b)
  then have "encoded_etag e coding = ''W/'' @ [CHR 0x22] @ (body @ ''-'' @ coding_str coding) @ [CHR 0x22]"
    by (simp add: encoded_etag_def)
  moreover have "list_all (\<lambda>c. visible_ascii c \<and> \<not> is_white c \<and> c \<noteq> CHR '','') (''-'' @ coding_str coding)"
    by (cases coding) (simp_all, code_simp+)
  ultimately show ?thesis using b(2) unfolding host_etag_def by auto
qed

lemma host_etag_member:
  assumes "host_etag e"
  shows "split_on CHR '','' e = [e]" "trim e = e" "list_all visible_ascii e" "starts_with e ''W/''"
    "ends_with e [CHR 0x22]" "CHR 0x22 \<in> set e" "e \<noteq> ''*''"
proof -
  from assms obtain body where b: "e = ''W/'' @ [CHR 0x22] @ body @ [CHR 0x22]"
    "list_all (\<lambda>c. visible_ascii c \<and> \<not> is_white c \<and> c \<noteq> CHR '','') body"
    by (auto simp: host_etag_def)
  have c: "list_all (\<lambda>c. visible_ascii c \<and> \<not> is_white c \<and> c \<noteq> CHR '','') (''W/'' @ [CHR 0x22])" by code_simp
  then have e: "list_all (\<lambda>c. visible_ascii c \<and> \<not> is_white c \<and> c \<noteq> CHR '','') e" using b by simp
  show "split_on CHR '','' e = [e]" using e by (intro split_on_single) (auto simp: list_all_iff)
  show "trim e = e" using e by (simp add: trim_def list_all_iff trim_matches_id)
  show "list_all visible_ascii e" using e by (simp add: list_all_iff)
  show "starts_with e ''W/''" "ends_with e [CHR 0x22]" "CHR 0x22 \<in> set e" "e \<noteq> ''*''"
    using b by (auto simp: starts_with_def ends_with_iff)
qed

lemma unix_seconds_trunc: "0 \<le> t \<Longrightarrow> unix_seconds (t - t mod NANOS_PER_SEC) = unix_seconds t"
  by (auto simp: unix_seconds_def minus_mod_eq_div_mult NANOS_PER_SEC_def)

context http_laws
begin

lemma etag_member_alone:
  assumes "hm_get_all C h k = [e]" "host_etag e"
  shows "etag_condition_matches C h k current weak = etag_candidate_matches current weak e"
  using assms host_etag_member to_str_visible by (simp add: etag_condition_matches_def)

end

lemma host_etag_weak_match:
  assumes "host_etag e" "host_etag current"
  shows "etag_candidate_matches current True e \<longleftrightarrow> e = current"
proof -
  obtain x y where xy: "e = ''W/'' @ x" "current = ''W/'' @ y"
    using host_etag_member(4) [OF assms(1)] host_etag_member(4) [OF assms(2)] by (auto simp: starts_with_iff)
  have "strip_weak (''W/'' @ z) = z" for z
    by (simp add: strip_weak_def unwrap_or_def strip_prefix_def starts_with_def)
  then have "strip_weak e = strip_weak current \<longleftrightarrow> e = current" using xy by simp
  then show ?thesis
    using host_etag_member [OF assms(1)] by (auto simp: etag_candidate_matches_def Let_def)
qed

lemma host_etag_strong_match:
  "host_etag current \<Longrightarrow> etag_candidate_matches current False e \<longleftrightarrow> trim e = ''*''"
  using host_etag_member(4,7) by (auto simp: etag_candidate_matches_def Let_def)

lemma parse_u64_bound: "parse_u64 s = Some n \<Longrightarrow> n \<le> u64_max"
  by (rule parse_uint_bound)

lemma parse_u64_Nil: "parse_u64 [] = None"
  by (simp add: parse_uint_def)

lemma parse_byte_range_bounds:
  "parse_byte_range first final n = Range_Bytes s e \<Longrightarrow> s \<le> e \<and> e < n"
  by (auto simp: parse_byte_range_def split: if_splits option.splits)

lemma parse_range_bounds: "parse_range C h n = Range_Bytes s e \<Longrightarrow> s \<le> e \<and> e < n"
  by (auto simp: parse_range_def split: list.splits option.splits if_splits prod.splits
      dest: parse_byte_range_bounds)

lemma decimal_plain: "c \<in> set (to_decimal n) \<Longrightarrow> c \<noteq> CHR '','' \<and> c \<noteq> CHR ''-'' \<and> visible_ascii c"
proof -
  assume "c \<in> set (to_decimal n)"
  then have "is_ascii_digit c" using to_decimal_digits [of n] by (auto simp: list_all_iff)
  then show ?thesis by (auto simp: ascii_defs code_def visible_ascii_def)
qed

definition range_field :: "nat option \<Rightarrow> nat option \<Rightarrow> string" where
  "range_field first final =
     ''bytes='' @ (case first of None \<Rightarrow> [] | Some a \<Rightarrow> to_decimal a) @ ''-'' @
       (case final of None \<Rightarrow> [] | Some b \<Rightarrow> to_decimal b)"

definition opt_decimal :: "nat option \<Rightarrow> string" where
  "opt_decimal x = (case x of None \<Rightarrow> [] | Some a \<Rightarrow> to_decimal a)"

lemma opt_decimal_chars: "c \<in> set (opt_decimal x) \<Longrightarrow> c \<noteq> CHR '','' \<and> c \<noteq> CHR ''-'' \<and> visible_ascii c"
  using decimal_plain by (auto simp: opt_decimal_def split: option.splits)

lemma opt_decimal_simps [simp]: "opt_decimal None = []" "opt_decimal (Some a) = to_decimal a"
  by (simp_all add: opt_decimal_def)

context http_laws
begin

lemma parse_range_field:
  assumes "hm_get_all C h ''range'' = [range_field first final]"
  shows "parse_range C h n = parse_byte_range (opt_decimal first) (opt_decimal final) n"
proof -
  let ?spec = "opt_decimal first @ CHR ''-'' # opt_decimal final"
  have f: "range_field first final = ''bytes='' @ ?spec"
    by (simp add: range_field_def opt_decimal_def)
  have "list_all visible_ascii ''bytes=''" "visible_ascii CHR ''-''" by code_simp+
  then have "list_all visible_ascii (''bytes='' @ ?spec)"
    using opt_decimal_chars by (fastforce simp: list_all_iff)
  then have "hv_to_str C (''bytes='' @ ?spec) = Some (''bytes='' @ ?spec)" by (rule to_str_visible)
  moreover have "strip_prefix (''bytes='' @ ?spec) ''bytes='' = Some ?spec" by (simp only: strip_prefix_Some)
  moreover have "CHR '','' \<notin> set ?spec" using opt_decimal_chars by fastforce
  moreover have "split_once CHR ''-'' ?spec = Some (opt_decimal first, opt_decimal final)"
    using opt_decimal_chars by (fastforce simp: split_once_Some)
  ultimately show ?thesis unfolding parse_range_def assms f by (simp only: list.case option.case prod.case if_False)
qed

end

section \<open>Properties\<close>

text \<open>C8: byte ranges mean what the field says.  For a \<open>Range\<close> field with a first position, a
  first and a last position, or a suffix length, the selected bytes are exactly the requested ones
  that the file has; a range that begins after the end of the file or a suffix of nothing is
  unsatisfiable; a last position before the first is ignored.  Whatever the request holds, a
  selected range is non-empty and lies inside the file.\<close>

theorem byte_range_semantics:
  assumes "http_laws C"
  shows "(\<forall>s e. parse_range C headers n = Range_Bytes s e \<longrightarrow> s \<le> e \<and> e < n) \<and>
    (hm_get_all C h ''range'' = [range_field first final] \<longrightarrow>
     (\<forall>a. first = Some a \<longrightarrow> a \<le> u64_max) \<longrightarrow> (\<forall>b. final = Some b \<longrightarrow> b \<le> u64_max) \<longrightarrow>
     parse_range C h n =
       (case (first, final) of
          (None, None) \<Rightarrow> Range_Ignore
        | (None, Some k) \<Rightarrow>
            if k = 0 \<or> n = 0 then Range_Unsatisfiable else Range_Bytes (n - k) (n - 1)
        | (Some a, None) \<Rightarrow> if a \<ge> n then Range_Unsatisfiable else Range_Bytes a (n - 1)
        | (Some a, Some b) \<Rightarrow>
            if a \<ge> n then Range_Unsatisfiable
            else if b < a then Range_Ignore else Range_Bytes a (min b (n - 1))))"
proof (intro conjI impI)
  show "\<forall>s e. parse_range C headers n = Range_Bytes s e \<longrightarrow> s \<le> e \<and> e < n"
    by (intro allI impI) (rule parse_range_bounds)
  assume h: "hm_get_all C h ''range'' = [range_field first final]"
    and b: "\<forall>a. first = Some a \<longrightarrow> a \<le> u64_max" "\<forall>b. final = Some b \<longrightarrow> b \<le> u64_max"
  show "parse_range C h n = (case (first, final) of
          (None, None) \<Rightarrow> Range_Ignore
        | (None, Some k) \<Rightarrow>
            if k = 0 \<or> n = 0 then Range_Unsatisfiable else Range_Bytes (n - k) (n - 1)
        | (Some a, None) \<Rightarrow> if a \<ge> n then Range_Unsatisfiable else Range_Bytes a (n - 1)
        | (Some a, Some b) \<Rightarrow>
            if a \<ge> n then Range_Unsatisfiable
            else if b < a then Range_Ignore else Range_Bytes a (min b (n - 1)))"
    unfolding http_laws.parse_range_field [OF assms h]
    using b by (cases first; cases final) (simp_all add: parse_byte_range_def parse_u64_Nil)
qed

theorem byte_range_semantics_witness:
  "parse_range list_http [(''range'', ''bytes=2-9'')] 5 = Range_Bytes 2 4 \<and> (2::nat) \<le> 4 \<and> (4::nat) < 5"
proof -
  have r: "''bytes=2-9'' = range_field (Some 2) (Some 9)" by code_simp
  have "hm_get_all list_http [(''range'', ''bytes=2-9'')] ''range'' = [range_field (Some 2) (Some 9)]"
    by (simp add: list_http_def r)
  with byte_range_semantics [OF list_http.http_laws_axioms, of "[(''range'', ''bytes=2-9'')]" 5
      "[(''range'', ''bytes=2-9'')]" "Some 2" "Some 9"]
  show ?thesis by (simp add: u64_max_def)
qed

text \<open>C31: validators revalidate and change with the file.  A client that sends back the entity tag
  or the modification date it was given, and no other condition, is answered with 304; a tag of a
  file with another length or modification time does not match; and since the host's tags are
  weak, an \<open>If-Match\<close> field with the tag alone always fails.\<close>

theorem validators_revalidate:
  assumes "http_laws C" "http_date_laws D" "method = ''GET'' \<or> method = ''HEAD''"
  shows "precondition_status C D (hm_insert C (hm_new C) ''if-none-match'' (weak_etag n t))
      (weak_etag n t) t method = Some 304 \<and>
    (precondition_status C D (hm_insert C (hm_new C) ''if-none-match'' (weak_etag n t))
       (weak_etag n' t') t' method = None \<longleftrightarrow> n \<noteq> n' \<or> modified_nanos t \<noteq> modified_nanos t') \<and>
    precondition_status C D (hm_insert C (hm_new C) ''if-match'' (weak_etag n t))
      (weak_etag n t) t method = Some 412 \<and>
    (\<forall>m s. t = Some m \<longrightarrow> hd_fmt D m = Some s \<longrightarrow>
       precondition_status C D (hm_insert C (hm_new C) ''if-modified-since'' s) (weak_etag n t) t method = Some 304)"
proof -
  note [simp] = http_laws.contains_insert [OF assms(1)] http_laws.contains_new [OF assms(1)]
    http_laws.get_all_insert [OF assms(1)] http_laws.get_insert [OF assms(1)] http_laws.get_new [OF assms(1)]
    http_laws.etag_member_alone [OF assms(1) _ weak_etag_host] host_etag_weak_match [OF weak_etag_host weak_etag_host]
    host_etag_strong_match [OF weak_etag_host] host_etag_member(2,7) [OF weak_etag_host]
  have "precondition_status C D (hm_insert C (hm_new C) ''if-modified-since'' s) (weak_etag n t) t method = Some 304"
    if "t = Some m" "hd_fmt D m = Some s" for m s
  proof -
    have "parse_http_date C D s = Some (m - m mod NANOS_PER_SEC)" "0 \<le> m"
      using http_date_laws.parse_fmt [OF assms(2) that(2)] http_date_laws.fmt_visible [OF assms(2) that(2)]
        http_laws.to_str_visible [OF assms(1)] by (auto simp: parse_http_date_def)
    then show ?thesis
      using assms(3) that(1) unix_seconds_trunc
      by (auto simp: precondition_status_def date_field_def is_later_def)
  qed
  then show ?thesis
    using assms(3) by (auto simp: precondition_status_def date_field_def weak_etag_inj)
qed

theorem validators_revalidate_witness:
  "precondition_status list_http decimal_date [(''if-none-match'', weak_etag 10 (Some 77))]
     (weak_etag 10 (Some 77)) (Some 77) ''GET'' = Some 304"
  using validators_revalidate [OF list_http.http_laws_axioms decimal_date.http_date_laws_axioms, of "''GET''" 10 "Some 77"]
  by (simp add: list_http_def)

end
