(* ===== verification/Response.thy ===== *)
theory Response
  imports Http_Crate
begin

text \<open>
  \<open>src/src/response.rs\<close>: validation of application responses and the framing rules every
  response passes immediately before transmission.  A body is seen by this module only through
  the exact length its \<open>size_hint\<close> gives.  One constructor of \<open>response_error\<close> stands for
  each message of the code; \<open>Response_Panic\<close> marks a failing \<open>expect\<close>.
\<close>

definition CONNECTION_SPECIFIC_FIELDS :: "string list" where
  "CONNECTION_SPECIFIC_FIELDS =
     [''connection'', ''http2-settings'', ''keep-alive'', ''proxy-connection'', ''te'',
      ''transfer-encoding'', ''upgrade'']"

definition UNSUPPORTED_TRAILER_FIELD :: string where
  "UNSUPPORTED_TRAILER_FIELD = ''trailer''"

record request_semantics =
  rs_method :: string
  rs_version :: version

datatype response_error =
  Invalid_Status nat
| Status_Forbids_Content nat
| Invalid_Header_Name string
| Invalid_Header_Value string
| Unsupported_Field string string
| Host_Unsupported_Field string
| Length_Not_Text
| Invalid_Content_Length string
| Conflicting_Content_Length
| Status_Forbids_Length nat
| Length_Mismatch nat nat
| Length_Of_Unknown_Body
| Reset_Content_Forbids_Content
| Informational_Response
| Successful_Connect
| Response_Panic

datatype 'b server_body = Empty_Body | Full_Body string | Other_Body "nat option" 'b

fun body_exact :: "'b server_body \<Rightarrow> nat option" where
  "body_exact Empty_Body = Some 0"
| "body_exact (Full_Body bytes) = Some (length bytes)"
| "body_exact (Other_Body n _) = n"

record ('h, 'b) server_response =
  rsp_status :: nat
  rsp_headers :: 'h
  rsp_body :: "'b server_body"

datatype length_rule_kind = Length_Forbidden | Length_Representation

definition protocol_name :: "request_semantics \<Rightarrow> string" where
  "protocol_name r =
     (case rs_version r of
        HTTP_2 \<Rightarrow> ''HTTP/2'' | HTTP_10 \<Rightarrow> ''HTTP/1'' | HTTP_11 \<Rightarrow> ''HTTP/1'' | _ \<Rightarrow> ''HTTP'')"

definition length_rule :: "nat \<Rightarrow> request_semantics \<Rightarrow> response_error + length_rule_kind" where
  "length_rule status request =
     (if sc_is_informational status then Inl Informational_Response
      else if rs_method request = ''CONNECT'' \<and> sc_is_success status then Inl Successful_Connect
      else if status = 204 \<or> status = 304 then Inr Length_Forbidden
      else Inr Length_Representation)"

definition is_connection_specific :: "string \<Rightarrow> bool" where
  "is_connection_specific name = list_ex (\<lambda>forbidden. name = forbidden) CONNECTION_SPECIFIC_FIELDS"

definition parse_length_part :: "string \<Rightarrow> string \<Rightarrow> response_error + nat" where
  "parse_length_part text part =
     (let digits = trim_matches (\<lambda>c. c = CHR '' '' \<or> code c = 9) part in
      if digits = [] \<or> \<not> list_all is_ascii_digit digits then Inl (Invalid_Content_Length text)
      else (case parse_u64 digits of
              None \<Rightarrow> Inl (Invalid_Content_Length text)
            | Some n \<Rightarrow> Inr n))"

definition parse_content_length_value :: "string \<Rightarrow> response_error + nat list" where
  "parse_content_length_value value =
     (if \<not> utf8_valid value then Inl Length_Not_Text
      else map_result (parse_length_part value) (split_on CHR '','' value))"

definition one_content_length :: "nat list \<Rightarrow> response_error + nat option" where
  "one_content_length lengths =
     (case lengths of
        [] \<Rightarrow> Inr None
      | first # rest \<Rightarrow>
          if list_ex (\<lambda>n. n \<noteq> first) rest then Inl Conflicting_Content_Length
          else Inr (Some first))"

definition set_content_length :: "'h http_crate \<Rightarrow> 'h \<Rightarrow> nat \<Rightarrow> response_error + 'h" where
  "set_content_length C headers n =
     (case hv_from_str C (to_decimal n) of
        None \<Rightarrow> Inl Response_Panic
      | Some v \<Rightarrow> Inr (hm_insert C (hm_remove C headers ''content-length'') ''content-length'' v))"

section \<open>Application responses\<close>

fun accept_headers ::
  "'h http_crate \<Rightarrow> request_semantics \<Rightarrow> (string \<times> string) list \<Rightarrow> 'h \<Rightarrow> nat list \<Rightarrow>
     response_error + 'h \<times> nat list" where
  "accept_headers C request [] headers lengths = Inr (headers, lengths)"
| "accept_headers C request ((raw_name, raw_value) # rest) headers lengths =
     (case hn_from_bytes C raw_name of
        None \<Rightarrow> Inl (Invalid_Header_Name raw_name)
      | Some name \<Rightarrow>
          (case hv_from_str C raw_value of
             None \<Rightarrow> Inl (Invalid_Header_Value raw_name)
           | Some value \<Rightarrow>
               if is_connection_specific name \<or> name = UNSUPPORTED_TRAILER_FIELD
               then Inl (Unsupported_Field (protocol_name request) name)
               else if name = ''content-length'' then
                 bind_result (parse_content_length_value value) (\<lambda>ns.
                   accept_headers C request rest headers (lengths @ ns))
               else accept_headers C request rest (hm_append C headers name value) lengths))"

definition application_parts ::
  "'h http_crate \<Rightarrow> nat \<Rightarrow> (string \<times> string) list \<Rightarrow> nat \<Rightarrow> request_semantics \<Rightarrow>
     response_error + nat \<times> 'h" where
  "application_parts C raw_status raw_headers representation_length request =
     (case sc_from_u16 C raw_status of
        None \<Rightarrow> Inl (Invalid_Status raw_status)
      | Some status \<Rightarrow>
          bind_result (length_rule status request) (\<lambda>rule.
          if (rule = Length_Forbidden \<or> status = 205) \<and> representation_length \<noteq> 0
          then Inl (Status_Forbids_Content status)
          else
          bind_result (accept_headers C request raw_headers (hm_new C) []) (\<lambda>(headers, lengths).
          bind_result (one_content_length lengths) (\<lambda>supplied.
            case rule of
              Length_Forbidden \<Rightarrow>
                if supplied \<noteq> None then Inl (Status_Forbids_Length status)
                else Inr (status, headers)
            | Length_Representation \<Rightarrow>
                (case supplied of
                   Some n \<Rightarrow>
                     if n \<noteq> representation_length then Inl (Length_Mismatch n representation_length)
                     else bind_result (set_content_length C headers representation_length)
                            (\<lambda>headers. Inr (status, headers))
                 | None \<Rightarrow>
                     bind_result (set_content_length C headers representation_length)
                       (\<lambda>headers. Inr (status, headers)))))))"

section \<open>Finalization\<close>

definition head_length :: "nat option \<Rightarrow> nat option \<Rightarrow> response_error + nat option" where
  "head_length supplied body =
     (case (supplied, body) of
        (Some n, Some b) \<Rightarrow>
          if b = 0 then Inr (Some n)
          else if n = b then Inr (Some n) else Inl (Length_Mismatch n b)
      | (Some _, None) \<Rightarrow> Inl Length_Of_Unknown_Body
      | (None, None) \<Rightarrow> Inr None
      | (None, Some b) \<Rightarrow> Inr (if b = 0 then None else Some b))"

definition supplied_lengths :: "'h http_crate \<Rightarrow> 'h \<Rightarrow> response_error + nat list" where
  "supplied_lengths C headers =
     bind_result (map_result parse_content_length_value (hm_get_all C headers ''content-length''))
       (\<lambda>nss. Inr (concat nss))"

definition finalize_response ::
  "'h http_crate \<Rightarrow> ('h, 'b) server_response \<Rightarrow> request_semantics \<Rightarrow>
     response_error + ('h, 'b) server_response" where
  "finalize_response C response request =
     (let status = rsp_status response; headers = rsp_headers response in
      bind_result (length_rule status request) (\<lambda>rule.
      case find (\<lambda>name. is_connection_specific name \<or> name = UNSUPPORTED_TRAILER_FIELD)
             (map fst (hm_iter C headers)) of
        Some name \<Rightarrow> Inl (Host_Unsupported_Field name)
      | None \<Rightarrow>
          bind_result (supplied_lengths C headers) (\<lambda>lengths.
          bind_result (one_content_length lengths) (\<lambda>supplied.
          let body_length = body_exact (rsp_body response) in
          if status = 205 \<and> body_length \<noteq> Some 0 then Inl Reset_Content_Forbids_Content
          else (case rule of
            Length_Forbidden \<Rightarrow>
              if supplied \<noteq> None then Inl (Status_Forbids_Length status)
              else if body_length \<noteq> Some 0 then Inl (Status_Forbids_Content status)
              else Inr (response\<lparr> rsp_headers := hm_remove C headers ''content-length'' \<rparr>)
          | Length_Representation \<Rightarrow>
              if rs_method request = ''HEAD'' then
                bind_result (head_length supplied body_length) (\<lambda>n.
                bind_result (case n of
                    Some n \<Rightarrow> set_content_length C headers n
                  | None \<Rightarrow> Inr (hm_remove C headers ''content-length'')) (\<lambda>headers.
                  Inr (response\<lparr> rsp_headers := headers, rsp_body := Empty_Body \<rparr>)))
              else (case (supplied, body_length) of
                (Some n, None) \<Rightarrow> Inl Length_Of_Unknown_Body
              | (None, None) \<Rightarrow>
                  Inr (response\<lparr> rsp_headers := hm_remove C headers ''content-length'' \<rparr>)
              | (_, Some b) \<Rightarrow>
                  if supplied \<noteq> None \<and> supplied \<noteq> Some b
                  then Inl (Length_Mismatch (the supplied) b)
                  else bind_result (set_content_length C headers b) (\<lambda>headers.
                         Inr (response\<lparr> rsp_headers := headers \<rparr>))))))))"

definition internal_error_response :: "'h http_crate \<Rightarrow> ('h, 'b) server_response" where
  "internal_error_response C =
     \<lparr> rsp_status = 500,
       rsp_headers = hm_insert C (hm_new C) ''content-type'' ''text/plain; charset=utf-8'',
       rsp_body = Full_Body ''500 Internal Server Error'' \<rparr>"

definition safe_internal_server_error ::
  "'h http_crate \<Rightarrow> request_semantics \<Rightarrow> ('h, 'b) server_response option" where
  "safe_internal_server_error C request =
     (case finalize_response C (internal_error_response C) request of
        Inl _ \<Rightarrow> None | Inr r \<Rightarrow> Some r)"

section \<open>Lemmas\<close>

definition forbidden_field :: "string \<Rightarrow> bool" where
  "forbidden_field name = (is_connection_specific name \<or> name = UNSUPPORTED_TRAILER_FIELD)"

lemma content_length_allowed: "\<not> forbidden_field ''content-length''"
  by (simp add: forbidden_field_def is_connection_specific_def CONNECTION_SPECIFIC_FIELDS_def
      UNSUPPORTED_TRAILER_FIELD_def)

lemma content_type_allowed: "\<not> forbidden_field ''content-type''"
  by (simp add: forbidden_field_def is_connection_specific_def CONNECTION_SPECIFIC_FIELDS_def
      UNSUPPORTED_TRAILER_FIELD_def)

lemma digits_visible: "list_all is_ascii_digit s \<Longrightarrow> list_all visible_ascii s"
  by (auto simp: list_all_iff visible_ascii_def is_ascii_digit_def)

lemma digits_no: "list_all is_ascii_digit s \<Longrightarrow> \<not> is_ascii_digit c \<Longrightarrow> c \<notin> set s"
  by (auto simp: list_all_iff)

lemma parse_length_decimal:
  assumes "n \<le> u64_max"
  shows "parse_content_length_value (to_decimal n) = Inr [n]"
proof -
  have d: "list_all is_ascii_digit (to_decimal n)" by simp
  then have "list_all is_ascii (to_decimal n)" by (auto simp: list_all_iff ascii_digit_visible)
  then have u: "utf8_valid (to_decimal n)" by (rule utf8_valid_ascii)
  have "CHR '','' \<notin> set (to_decimal n)"
    by (rule digits_no [OF d]) (simp add: is_ascii_digit_def code_def)
  then have s: "split_on CHR '','' (to_decimal n) = [to_decimal n]" by (rule split_on_single)
  have "list_all (\<lambda>c. \<not> (c = CHR '' '' \<or> code c = 9)) (to_decimal n)"
    using d by (auto simp: list_all_iff is_ascii_digit_def code_def)
  then have "trim_matches (\<lambda>c. c = CHR '' '' \<or> code c = 9) (to_decimal n) = to_decimal n"
    by (rule trim_matches_id)
  with u s assms show ?thesis
    by (simp add: parse_content_length_value_def parse_length_part_def)
qed

lemma parse_length_part_bound: "parse_length_part t p = Inr n \<Longrightarrow> n \<le> u64_max"
  by (auto simp: parse_length_part_def Let_def dest: parse_uint_bound split: if_splits option.splits)

lemma parse_length_value_bound:
  "parse_content_length_value v = Inr ns \<Longrightarrow> n \<in> set ns \<Longrightarrow> n \<le> u64_max"
  by (auto simp: parse_content_length_value_def dest!: map_result_set parse_length_part_bound
      split: if_splits)

lemma one_content_length_Inr:
  "one_content_length ns = Inr r \<longleftrightarrow> (\<forall>n\<in>set ns. r = Some n) \<and> (ns = [] \<longrightarrow> r = None)"
  by (auto simp: one_content_length_def list_ex_iff split: list.splits) metis

lemma supplied_bound:
  assumes "supplied_lengths C h = Inr ns" "one_content_length ns = Inr (Some n)"
  shows "n \<le> u64_max"
proof -
  from assms(2) have "n \<in> set ns" by (cases ns) (auto simp: one_content_length_Inr)
  with assms(1) obtain nss xs where
    "map_result parse_content_length_value (hm_get_all C h ''content-length'') = Inr nss"
    "xs \<in> set nss" and n: "n \<in> set xs"
    by (auto simp: supplied_lengths_def)
  then obtain v where "parse_content_length_value v = Inr xs"
    using map_result_set [of parse_content_length_value] by metis
  from parse_length_value_bound [OF this n] show ?thesis .
qed

context http_laws
begin

lemma set_content_length_ok:
  obtains h' where "set_content_length C h n = Inr h'"
    "\<And>k. hm_get_all C h' k = (if k = ''content-length'' then [to_decimal n] else hm_get_all C h k)"
  using from_str_visible [OF digits_visible, of "to_decimal n"] that
  by (simp add: set_content_length_def)

lemma set_or_remove:
  assumes "(case n of Some n \<Rightarrow> set_content_length C h n
    | None \<Rightarrow> Inr (hm_remove C h ''content-length'')) = Inr h'"
  shows "hm_get_all C h' k = (if k = ''content-length''
    then (case n of None \<Rightarrow> [] | Some m \<Rightarrow> [to_decimal m]) else hm_get_all C h k)"
proof (cases n)
  case (Some m)
  with assms show ?thesis by (metis Inr_inject option.simps(5) set_content_length_ok)
qed (use assms in auto)

lemma find_forbidden:
  "find (\<lambda>name. is_connection_specific name \<or> name = UNSUPPORTED_TRAILER_FIELD) (map fst (hm_iter C h)) = None
   \<longleftrightarrow> (\<forall>k. forbidden_field k \<longrightarrow> hm_get_all C h k = [])"
proof -
  have "(\<exists>v. (k, v) \<in> set (hm_iter C h)) \<longleftrightarrow> hm_get_all C h k \<noteq> []" for k
    by (simp add: in_iter_iff ex_in_conv)
  then show ?thesis
    by (auto simp: find_None_iff forbidden_field_def) (metis fst_conv)+
qed

lemma supplied_lengths_canonical:
  "hm_get_all C h ''content-length'' = [] \<Longrightarrow> supplied_lengths C h = Inr []"
  "hm_get_all C h ''content-length'' = [to_decimal n] \<Longrightarrow> n \<le> u64_max \<Longrightarrow> supplied_lengths C h = Inr [n]"
  by (simp_all add: supplied_lengths_def parse_length_decimal)

lemma finalize_cases:
  assumes "finalize_response C r req = Inr r'"
  obtains rule ns supplied where "length_rule (rsp_status r) req = Inr rule"
    "\<forall>k. forbidden_field k \<longrightarrow> hm_get_all C (rsp_headers r) k = []"
    "supplied_lengths C (rsp_headers r) = Inr ns" "one_content_length ns = Inr supplied"
    "rsp_status r = 205 \<longrightarrow> body_exact (rsp_body r) = Some 0"
    "rsp_status r' = rsp_status r"
    "\<forall>k. k \<noteq> ''content-length'' \<longrightarrow> hm_get_all C (rsp_headers r') k = hm_get_all C (rsp_headers r) k"
    "rule = Length_Forbidden \<and> supplied = None \<and> body_exact (rsp_body r) = Some 0 \<and>
       rsp_body r' = rsp_body r \<and> hm_get_all C (rsp_headers r') ''content-length'' = [] \<or>
     rule = Length_Representation \<and> rs_method req = ''HEAD'' \<and> rsp_body r' = Empty_Body \<and>
       (\<exists>n. head_length supplied (body_exact (rsp_body r)) = Inr n \<and>
          hm_get_all C (rsp_headers r') ''content-length'' = (case n of None \<Rightarrow> [] | Some m \<Rightarrow> [to_decimal m])) \<or>
     rule = Length_Representation \<and> rs_method req \<noteq> ''HEAD'' \<and> rsp_body r' = rsp_body r \<and>
       (supplied = None \<or> supplied = body_exact (rsp_body r)) \<and>
       hm_get_all C (rsp_headers r') ''content-length'' =
         (case body_exact (rsp_body r) of None \<Rightarrow> [] | Some m \<Rightarrow> [to_decimal m])"
proof -
  let ?h = "rsp_headers r" and ?b = "body_exact (rsp_body r)"
  from assms obtain rule ns supplied where 1: "length_rule (rsp_status r) req = Inr rule"
    "find (\<lambda>name. is_connection_specific name \<or> name = UNSUPPORTED_TRAILER_FIELD)
       (map fst (hm_iter C ?h)) = None"
    "supplied_lengths C ?h = Inr ns" "one_content_length ns = Inr supplied"
    "rsp_status r = 205 \<Longrightarrow> ?b = Some 0"
    by (auto simp: finalize_response_def Let_def split: option.splits if_splits)
  note F = 1(2) [unfolded find_forbidden]
  show ?thesis
  proof (cases rule)
    case Length_Forbidden
    with assms 1 have "supplied = None" "?b = Some 0"
      "r' = r\<lparr> rsp_headers := hm_remove C ?h ''content-length'' \<rparr>"
      by (auto simp: finalize_response_def Let_def split: if_splits)
    with 1 F Length_Forbidden show ?thesis by (intro that [of rule ns supplied]) auto
  next
    case Length_Representation
    show ?thesis
    proof (cases "rs_method req = ''HEAD''")
      case True
      with assms 1 Length_Representation obtain n h' where
        "head_length supplied ?b = Inr n" "r' = r\<lparr> rsp_headers := h', rsp_body := Empty_Body \<rparr>"
        "(case n of Some n \<Rightarrow> set_content_length C ?h n
          | None \<Rightarrow> Inr (hm_remove C ?h ''content-length'')) = Inr h'"
        by (auto simp: finalize_response_def Let_def split: if_splits)
      moreover note set_or_remove [OF this(3)]
      ultimately show ?thesis
        using 1 F Length_Representation True by (intro that [of rule ns supplied]) auto
    next
      case False
      with assms 1 Length_Representation obtain h' where "r' = r\<lparr> rsp_headers := h' \<rparr>"
        "supplied = None \<or> supplied = ?b"
        "(case ?b of Some n \<Rightarrow> set_content_length C ?h n
          | None \<Rightarrow> Inr (hm_remove C ?h ''content-length'')) = Inr h'"
        by (cases supplied; cases "?b") (auto simp: finalize_response_def Let_def split: if_splits)
      moreover note set_or_remove [OF this(3)]
      ultimately show ?thesis
        using 1 F Length_Representation False by (intro that [of rule ns supplied]) auto
    qed
  qed
qed

lemma finalize_framing:
  assumes "finalize_response C r req = Inr r'"
  shows "rsp_status r' = rsp_status r" "\<not> sc_is_informational (rsp_status r)"
    "\<not> (rs_method req = ''CONNECT'' \<and> sc_is_success (rsp_status r))"
    "\<And>k. forbidden_field k \<Longrightarrow> hm_get_all C (rsp_headers r') k = []"
    "\<And>k. k \<noteq> ''content-length'' \<Longrightarrow> hm_get_all C (rsp_headers r') k = hm_get_all C (rsp_headers r) k"
    "rsp_status r \<in> {204, 304} \<Longrightarrow>
       hm_get_all C (rsp_headers r') ''content-length'' = [] \<and> body_exact (rsp_body r') = Some 0"
    "rsp_status r = 205 \<or> rs_method req = ''HEAD'' \<Longrightarrow> body_exact (rsp_body r') = Some 0"
    "\<exists>n. hm_get_all C (rsp_headers r') ''content-length'' = (case n of None \<Rightarrow> [] | Some m \<Rightarrow> [to_decimal m])"
    "rs_method req \<noteq> ''HEAD'' \<Longrightarrow> rsp_body r' = rsp_body r"
    "rs_method req \<noteq> ''HEAD'' \<Longrightarrow> rsp_status r \<notin> {204, 304} \<Longrightarrow>
       hm_get_all C (rsp_headers r') ''content-length'' =
         (case body_exact (rsp_body r') of None \<Rightarrow> [] | Some m \<Rightarrow> [to_decimal m])"
proof -
  from assms obtain rule ns supplied where
    r: "length_rule (rsp_status r) req = Inr rule"
    and f: "\<forall>k. forbidden_field k \<longrightarrow> hm_get_all C (rsp_headers r) k = []"
    and "supplied_lengths C (rsp_headers r) = Inr ns" "one_content_length ns = Inr supplied"
    and c205: "rsp_status r = 205 \<longrightarrow> body_exact (rsp_body r) = Some 0"
    and st: "rsp_status r' = rsp_status r"
    and other: "\<forall>k. k \<noteq> ''content-length'' \<longrightarrow> hm_get_all C (rsp_headers r') k = hm_get_all C (rsp_headers r) k"
    and cs: "rule = Length_Forbidden \<and> supplied = None \<and> body_exact (rsp_body r) = Some 0 \<and>
       rsp_body r' = rsp_body r \<and> hm_get_all C (rsp_headers r') ''content-length'' = [] \<or>
     rule = Length_Representation \<and> rs_method req = ''HEAD'' \<and> rsp_body r' = Empty_Body \<and>
       (\<exists>n. head_length supplied (body_exact (rsp_body r)) = Inr n \<and>
          hm_get_all C (rsp_headers r') ''content-length'' = (case n of None \<Rightarrow> [] | Some m \<Rightarrow> [to_decimal m])) \<or>
     rule = Length_Representation \<and> rs_method req \<noteq> ''HEAD'' \<and> rsp_body r' = rsp_body r \<and>
       (supplied = None \<or> supplied = body_exact (rsp_body r)) \<and>
       hm_get_all C (rsp_headers r') ''content-length'' =
         (case body_exact (rsp_body r) of None \<Rightarrow> [] | Some m \<Rightarrow> [to_decimal m])"
    by (rule finalize_cases)
  show "rsp_status r' = rsp_status r" by (rule st)
  show "\<not> sc_is_informational (rsp_status r)" using r by (auto simp: length_rule_def)
  show "\<not> (rs_method req = ''CONNECT'' \<and> sc_is_success (rsp_status r))"
    using r by (auto simp: length_rule_def split: if_splits)
  show "hm_get_all C (rsp_headers r') k = []" if "forbidden_field k" for k
    using f other that content_length_allowed by metis
  show "hm_get_all C (rsp_headers r') k = hm_get_all C (rsp_headers r) k" if "k \<noteq> ''content-length''" for k
    using other that by simp
  have rule: "rule = Length_Forbidden \<longleftrightarrow> rsp_status r \<in> {204, 304}"
    using r by (auto simp: length_rule_def split: if_splits)
  show "hm_get_all C (rsp_headers r') ''content-length'' = [] \<and> body_exact (rsp_body r') = Some 0"
    if "rsp_status r \<in> {204, 304}" using that rule cs by auto
  show "body_exact (rsp_body r') = Some 0" if "rsp_status r = 205 \<or> rs_method req = ''HEAD''"
    using that rule cs c205 by auto
  show "\<exists>n. hm_get_all C (rsp_headers r') ''content-length'' = (case n of None \<Rightarrow> [] | Some m \<Rightarrow> [to_decimal m])"
    using cs by (metis option.simps(4))
  show "rsp_body r' = rsp_body r" if "rs_method req \<noteq> ''HEAD''" using that cs by auto
  show "hm_get_all C (rsp_headers r') ''content-length'' =
         (case body_exact (rsp_body r') of None \<Rightarrow> [] | Some m \<Rightarrow> [to_decimal m])"
    if "rs_method req \<noteq> ''HEAD''" "rsp_status r \<notin> {204, 304}" using that rule cs by auto
qed

lemma head_length_again:
  "head_length supplied body = Inr n \<Longrightarrow> head_length n (Some 0) = Inr n"
  by (auto simp: head_length_def split: option.splits if_splits)

lemma finalize_stable:
  assumes "length_rule (rsp_status r) req = Inr rule"
    "\<And>k. forbidden_field k \<Longrightarrow> hm_get_all C (rsp_headers r) k = []"
    "rsp_status r = 205 \<Longrightarrow> body_exact (rsp_body r) = Some 0"
    "hm_get_all C (rsp_headers r) ''content-length'' = (case n of None \<Rightarrow> [] | Some m \<Rightarrow> [to_decimal m])"
    "\<And>m. n = Some m \<Longrightarrow> m \<le> u64_max"
    "if rule = Length_Forbidden then n = None \<and> body_exact (rsp_body r) = Some 0
     else if rs_method req = ''HEAD'' then body_exact (rsp_body r) = Some 0 \<or> body_exact (rsp_body r) = n
     else n = body_exact (rsp_body r)"
  shows "\<exists>r'. finalize_response C r req = Inr r' \<and> rsp_status r' = rsp_status r \<and>
    (\<forall>k. hm_get_all C (rsp_headers r') k = hm_get_all C (rsp_headers r) k) \<and>
    rsp_body r' = (if rule = Length_Representation \<and> rs_method req = ''HEAD'' then Empty_Body else rsp_body r)"
proof -
  let ?h = "rsp_headers r" and ?b = "body_exact (rsp_body r)"
  have f: "find (\<lambda>name. is_connection_specific name \<or> name = UNSUPPORTED_TRAILER_FIELD)
       (map fst (hm_iter C ?h)) = None"
    using assms(2) by (simp add: find_forbidden)
  have l: "\<exists>ns. supplied_lengths C ?h = Inr ns \<and> one_content_length ns = Inr n"
    using assms(4,5) supplied_lengths_canonical [of ?h]
    by (cases n) (auto simp: one_content_length_def)
  have same: "hm_get_all C (hm_remove C ?h ''content-length'') k = hm_get_all C ?h k" if "n = None" for k
    using that assms(4) by simp
  obtain h' where s: "set_content_length C ?h (the n) = Inr h'"
    "\<And>k. hm_get_all C h' k = (if k = ''content-length'' then [to_decimal (the n)] else hm_get_all C ?h k)"
    by (rule set_content_length_ok [of ?h "the n"]) blast
  have h': "set_content_length C ?h m = Inr h'" "hm_get_all C h' k = hm_get_all C ?h k"
    if "n = Some m" for m k
    using s assms(4) that by auto
  from l obtain ns where ns: "supplied_lengths C ?h = Inr ns" "one_content_length ns = Inr n" by blast
  show ?thesis
    using assms(1,3,6) f ns h' same
    by (cases rule; cases n; cases "?b")
      (auto simp: finalize_response_def Let_def head_length_def split: if_splits)
qed

end

context http_laws
begin

lemma finalize_idempotent:
  assumes f: "finalize_response C r req = Inr r'"
    and b: "\<And>n. body_exact (rsp_body r) = Some n \<Longrightarrow> n \<le> u64_max"
  shows "\<exists>r''. finalize_response C r' req = Inr r'' \<and> rsp_status r'' = rsp_status r' \<and>
    rsp_body r'' = rsp_body r' \<and> (\<forall>k. hm_get_all C (rsp_headers r'') k = hm_get_all C (rsp_headers r') k)"
proof -
  from f obtain rule ns supplied where
    r: "length_rule (rsp_status r) req = Inr rule"
    and "\<forall>k. forbidden_field k \<longrightarrow> hm_get_all C (rsp_headers r) k = []"
    and sup: "supplied_lengths C (rsp_headers r) = Inr ns" "one_content_length ns = Inr supplied"
    and "rsp_status r = 205 \<longrightarrow> body_exact (rsp_body r) = Some 0"
    and st: "rsp_status r' = rsp_status r"
    and "\<forall>k. k \<noteq> ''content-length'' \<longrightarrow> hm_get_all C (rsp_headers r') k = hm_get_all C (rsp_headers r) k"
    and cs: "rule = Length_Forbidden \<and> supplied = None \<and> body_exact (rsp_body r) = Some 0 \<and>
       rsp_body r' = rsp_body r \<and> hm_get_all C (rsp_headers r') ''content-length'' = [] \<or>
     rule = Length_Representation \<and> rs_method req = ''HEAD'' \<and> rsp_body r' = Empty_Body \<and>
       (\<exists>n. head_length supplied (body_exact (rsp_body r)) = Inr n \<and>
          hm_get_all C (rsp_headers r') ''content-length'' = (case n of None \<Rightarrow> [] | Some m \<Rightarrow> [to_decimal m])) \<or>
     rule = Length_Representation \<and> rs_method req \<noteq> ''HEAD'' \<and> rsp_body r' = rsp_body r \<and>
       (supplied = None \<or> supplied = body_exact (rsp_body r)) \<and>
       hm_get_all C (rsp_headers r') ''content-length'' =
         (case body_exact (rsp_body r) of None \<Rightarrow> [] | Some m \<Rightarrow> [to_decimal m])"
    by (rule finalize_cases)
  note F = finalize_framing [OF f]
  obtain n where n: "hm_get_all C (rsp_headers r') ''content-length'' = (case n of None \<Rightarrow> [] | Some m \<Rightarrow> [to_decimal m])"
    "\<And>m. n = Some m \<Longrightarrow> m \<le> u64_max"
    "if rule = Length_Forbidden then n = None \<and> body_exact (rsp_body r') = Some 0
     else if rs_method req = ''HEAD'' then body_exact (rsp_body r') = Some 0 \<or> body_exact (rsp_body r') = n
     else n = body_exact (rsp_body r')"
  proof (cases "rule = Length_Representation \<and> rs_method req = ''HEAD''")
    case True
    with cs obtain n where n: "head_length supplied (body_exact (rsp_body r)) = Inr n" "rsp_body r' = Empty_Body"
      "hm_get_all C (rsp_headers r') ''content-length'' = (case n of None \<Rightarrow> [] | Some m \<Rightarrow> [to_decimal m])"
      by auto
    have "m \<le> u64_max" if "n = Some m" for m
      using n(1) that b supplied_bound [OF sup(1)] sup(2)
      by (auto simp: head_length_def split: option.splits if_splits)
    with n True show ?thesis by (intro that [of n]) auto
  next
    case False
    show ?thesis
      by (rule that [of "if rule = Length_Forbidden then None else body_exact (rsp_body r)"])
        (use cs b False in \<open>auto split: if_splits\<close>)
  qed
  have "length_rule (rsp_status r') req = Inr rule" using r st by simp
  from finalize_stable [OF this F(4) _ n(1,2) n(3)] F(7) st
  show ?thesis using cs by (auto split: if_splits)
qed

lemma accept_headers_ok:
  assumes "accept_headers C req raw h ls = Inr (h', ls')"
    "\<forall>k. forbidden_field k \<longrightarrow> hm_get_all C h k = []" "hm_get_all C h ''content-length'' = []"
  shows "(\<forall>k. forbidden_field k \<longrightarrow> hm_get_all C h' k = []) \<and> hm_get_all C h' ''content-length'' = []"
  using assms
proof (induction raw arbitrary: h ls)
  case (Cons rv raw)
  obtain n v where rv: "rv = (n, v)" by (cases rv)
  from Cons.prems(1) obtain name "value" where nv: "hn_from_bytes C n = Some name" "hv_from_str C v = Some value"
    "\<not> forbidden_field name"
    by (auto simp: rv forbidden_field_def split: option.splits if_splits)
  show ?case
  proof (cases "name = ''content-length''")
    case True
    with Cons.prems(1) nv obtain ns where "accept_headers C req raw h (ls @ ns) = Inr (h', ls')"
      by (auto simp: rv forbidden_field_def)
    then show ?thesis using Cons.IH Cons.prems(2,3) by blast
  next
    case False
    with Cons.prems(1) nv have "accept_headers C req raw (hm_append C h name value) ls = Inr (h', ls')"
      by (auto simp: rv forbidden_field_def)
    from Cons.IH [OF this] Cons.prems(2,3) nv False show ?thesis by auto
  qed
qed auto

lemma application_parts_finalize:
  assumes a: "application_parts C raw_status raw_headers (length bytes) req = Inr (status, h)"
    and b: "length bytes \<le> u64_max"
  shows "\<exists>r. finalize_response C
      (\<lparr> rsp_status = status, rsp_headers = h, rsp_body = Full_Body bytes \<rparr> :: ('h, 'b) server_response) req =
        Inr r \<and> rsp_status r = status"
proof -
  from a obtain rule h0 ls supplied where r: "length_rule status req = Inr rule"
    "(rule = Length_Forbidden \<or> status = 205) \<longrightarrow> bytes = []"
    "accept_headers C req raw_headers (hm_new C) [] = Inr (h0, ls)"
    "if rule = Length_Forbidden then h = h0 else set_content_length C h0 (length bytes) = Inr h"
    by (auto simp: application_parts_def split: option.splits if_splits length_rule_kind.splits)
  from accept_headers_ok [OF r(3)] have h0: "\<forall>k. forbidden_field k \<longrightarrow> hm_get_all C h0 k = []"
    "hm_get_all C h0 ''content-length'' = []" by simp_all
  let ?n = "if rule = Length_Forbidden then None else Some (length bytes)"
  have h: "hm_get_all C h k = (if k = ''content-length'' then (case ?n of None \<Rightarrow> [] | Some m \<Rightarrow> [to_decimal m])
      else hm_get_all C h0 k)" for k
    using r(4) h0(2) set_or_remove [where n = "Some (length bytes)" and h = h0 and h' = h and k = k] by (auto split: if_splits)
  let ?r = "\<lparr> rsp_status = status, rsp_headers = h, rsp_body = Full_Body bytes \<rparr> :: ('h, 'b) server_response"
  have "\<exists>r'. finalize_response C ?r req = Inr r' \<and> rsp_status r' = rsp_status ?r \<and>
    (\<forall>k. hm_get_all C (rsp_headers r') k = hm_get_all C (rsp_headers ?r) k) \<and>
    rsp_body r' = (if rule = Length_Representation \<and> rs_method req = ''HEAD'' then Empty_Body else rsp_body ?r)"
    by (rule finalize_stable [of ?r req rule ?n])
      (use r h h0 b content_length_allowed in \<open>auto split: if_splits\<close>)
  then show ?thesis by auto
qed

text \<open>A response of the host that states no length is given that of its body.\<close>

lemma finalize_unstated:
  fixes r :: "('h, 'b) server_response"
  assumes "length_rule (rsp_status r) req = Inr Length_Representation" "rsp_status r \<noteq> 205"
    "\<And>k. forbidden_field k \<Longrightarrow> hm_get_all C (rsp_headers r) k = []"
    "hm_get_all C (rsp_headers r) ''content-length'' = []" "body_exact (rsp_body r) = Some b"
  shows "\<exists>r'. finalize_response C r req = Inr r' \<and> rsp_status r' = rsp_status r"
proof -
  have "find (\<lambda>name. is_connection_specific name \<or> name = UNSUPPORTED_TRAILER_FIELD)
       (map fst (hm_iter C (rsp_headers r))) = None"
    using assms(3) by (simp add: find_forbidden)
  moreover have "supplied_lengths C (rsp_headers r) = Inr []"
    by (rule supplied_lengths_canonical) (rule assms(4))
  moreover obtain h' where "set_content_length C (rsp_headers r) b = Inr h'"
    by (rule set_content_length_ok [of "rsp_headers r" b]) blast
  ultimately show ?thesis
    using assms(1,2,5) by (simp add: finalize_response_def Let_def one_content_length_def head_length_def)
qed

lemma safe_500_ok:
  "\<exists>r. finalize_response C (internal_error_response C :: ('h, 'b) server_response) req = Inr r \<and>
     rsp_status r = 500"
proof -
  have "\<exists>r'. finalize_response C (internal_error_response C :: ('h, 'b) server_response) req = Inr r' \<and>
      rsp_status r' = rsp_status (internal_error_response C :: ('h, 'b) server_response)"
    by (rule finalize_unstated [where b = 25])
      (use content_type_allowed in \<open>auto simp: internal_error_response_def length_rule_def
         sc_is_informational_def sc_is_success_def\<close>)
  then show ?thesis by (simp add: internal_error_response_def)
qed

end

section \<open>Properties\<close>

text \<open>C6: every response that leaves finalization is framed correctly: it is final and not a
  successful CONNECT, carries no connection-specific or trailer field, has at most one
  \<open>Content-Length\<close> and that one canonical, has neither content nor a length for 204 and 304,
  no content for 205 and HEAD, and otherwise has a length exactly when the body's length is
  known, and then that length; status and all other fields are those of the input.\<close>

theorem finalized_response_framing:
  assumes "http_laws C" "finalize_response C r req = Inr r'"
  shows "rsp_status r' = rsp_status r \<and> \<not> sc_is_informational (rsp_status r') \<and>
    \<not> (rs_method req = ''CONNECT'' \<and> sc_is_success (rsp_status r')) \<and>
    (\<forall>k. forbidden_field k \<longrightarrow> hm_get_all C (rsp_headers r') k = []) \<and>
    (\<forall>k. k \<noteq> ''content-length'' \<longrightarrow>
       hm_get_all C (rsp_headers r') k = hm_get_all C (rsp_headers r) k) \<and>
    (\<exists>n. hm_get_all C (rsp_headers r') ''content-length'' =
       (case n of None \<Rightarrow> [] | Some m \<Rightarrow> [to_decimal m])) \<and>
    (rsp_status r' \<in> {204, 304} \<longrightarrow>
       hm_get_all C (rsp_headers r') ''content-length'' = [] \<and> body_exact (rsp_body r') = Some 0) \<and>
    (rsp_status r' = 205 \<or> rs_method req = ''HEAD'' \<longrightarrow> body_exact (rsp_body r') = Some 0) \<and>
    (rs_method req \<noteq> ''HEAD'' \<and> rsp_status r' \<notin> {204, 304} \<longrightarrow>
       hm_get_all C (rsp_headers r') ''content-length'' =
         (case body_exact (rsp_body r') of None \<Rightarrow> [] | Some m \<Rightarrow> [to_decimal m]))"
  using http_laws.finalize_framing [OF assms] by simp

theorem finalized_response_framing_witness:
  "hm_get_all list_http [(''content-length'', ''3'')] ''content-length'' = [to_decimal 3]"
proof -
  have "finalize_response list_http
      (\<lparr> rsp_status = 200, rsp_headers = [(''content-length'', ''3, 3'')], rsp_body = Full_Body ''abc'' \<rparr>
         :: ((string \<times> string) list, unit) server_response)
      \<lparr> rs_method = ''GET'', rs_version = HTTP_11 \<rparr> =
    Inr \<lparr> rsp_status = 200, rsp_headers = [(''content-length'', ''3'')], rsp_body = Full_Body ''abc'' \<rparr>"
    by code_simp
  from finalized_response_framing [OF list_http.http_laws_axioms this] show ?thesis
    by (simp add: numeral_3_eq_3)
qed

text \<open>C20: finalization is idempotent: a finalized response is accepted again and comes out with
  the same status, body and fields.\<close>

theorem finalize_response_idempotent:
  assumes "http_laws C" "finalize_response C r req = Inr r'"
    and "\<forall>n. body_exact (rsp_body r) = Some n \<longrightarrow> n \<le> u64_max"
  shows "\<exists>r''. finalize_response C r' req = Inr r'' \<and> rsp_status r'' = rsp_status r' \<and>
    rsp_body r'' = rsp_body r' \<and>
    (\<forall>k. hm_get_all C (rsp_headers r'') k = hm_get_all C (rsp_headers r') k)"
  using http_laws.finalize_idempotent [OF assms(1,2)] assms(3) by blast

theorem finalize_response_idempotent_witness:
  "\<exists>r''. finalize_response list_http
      (\<lparr> rsp_status = 200, rsp_headers = [(''content-length'', ''3'')], rsp_body = Empty_Body \<rparr>
         :: ((string \<times> string) list, unit) server_response)
      \<lparr> rs_method = ''HEAD'', rs_version = HTTP_2 \<rparr> = Inr r'' \<and> rsp_status r'' = 200"
proof -
  have "finalize_response list_http
      (\<lparr> rsp_status = 200, rsp_headers = [], rsp_body = Full_Body ''abc'' \<rparr>
         :: ((string \<times> string) list, unit) server_response)
      \<lparr> rs_method = ''HEAD'', rs_version = HTTP_2 \<rparr> =
    Inr \<lparr> rsp_status = 200, rsp_headers = [(''content-length'', ''3'')], rsp_body = Empty_Body \<rparr>"
    by code_simp
  from finalize_response_idempotent [OF list_http.http_laws_axioms this] show ?thesis
    by (auto simp: u64_max_def)
qed

text \<open>C21: validation and finalization agree: a response whose status and headers
  \<open>application_parts\<close> accepted for its bytes is never refused by \<open>finalize_response\<close>, so an
  accepted application response cannot turn into an internal error at transmission.\<close>

theorem accepted_application_response_finalizes:
  assumes "http_laws C"
    and "application_parts C raw_status raw_headers (length bytes) req = Inr (status, headers)"
    and "length bytes \<le> u64_max"
  shows "\<exists>r. finalize_response C
      (\<lparr> rsp_status = status, rsp_headers = headers, rsp_body = Full_Body bytes \<rparr> ::
         ('h, 'b) server_response) req = Inr r \<and> rsp_status r = status"
  by (rule http_laws.application_parts_finalize [OF assms])

theorem accepted_application_response_finalizes_witness:
  "\<exists>r. finalize_response list_http
      (\<lparr> rsp_status = 200, rsp_headers = [(''x-a'', ''b''), (''content-length'', ''2'')],
         rsp_body = Full_Body ''hi'' \<rparr> :: ((string \<times> string) list, unit) server_response)
      \<lparr> rs_method = ''GET'', rs_version = HTTP_11 \<rparr> = Inr r \<and> rsp_status r = 200"
proof -
  have "application_parts list_http 200 [(''X-A'', ''b''), (''Content-Length'', ''2'')] (length ''hi'')
      \<lparr> rs_method = ''GET'', rs_version = HTTP_11 \<rparr> =
    Inr (200, [(''x-a'', ''b''), (''content-length'', ''2'')])"
    by code_simp
  from accepted_application_response_finalizes [OF list_http.http_laws_axioms this]
  show ?thesis by (simp add: u64_max_def)
qed

text \<open>C22: the static fallback response can always be produced: its \<open>expect\<close> never fails,
  whatever the request's method and version.\<close>

theorem safe_internal_server_error_total:
  assumes "http_laws C"
  shows "\<exists>r :: ('h, 'b) server_response. safe_internal_server_error C req = Some r \<and> rsp_status r = 500"
proof -
  from http_laws.safe_500_ok [OF assms] obtain r :: "('h, 'b) server_response" where
    "finalize_response C (internal_error_response C) req = Inr r" "rsp_status r = 500" by blast
  then show ?thesis by (simp add: safe_internal_server_error_def)
qed

theorem safe_internal_server_error_total_witness:
  "\<exists>r :: ((string \<times> string) list, unit) server_response.
     safe_internal_server_error list_http \<lparr> rs_method = ''CONNECT'', rs_version = HTTP_2 \<rparr> = Some r \<and>
     rsp_status r = 500"
  by (rule safe_internal_server_error_total [OF list_http.http_laws_axioms])

end
