(* ===== verification/File_Server.thy ===== *)
theory File_Server
  imports File_Path File_Conditions Response
begin

text \<open>
  \<open>src/src/file_server.rs\<close>: file roots and the decision of the response to a file request.
  Metadata, seeking and reading of a file are parameters.  The response of a request is computed by \<open>prepare_and_stream\<close> on a thread of
  its own; \<open>None\<close> is a panic of that thread before it has sent a response, which \<open>serve\<close>
  answers with 500.
\<close>

definition MAX_FILE_ROOTS :: nat where
  "MAX_FILE_ROOTS = 64"

section \<open>Policies, plans and roots\<close>

datatype cache_policy = NoStore | Revalidate | PrivateFor "32 word" | PublicFor "32 word"

definition cache_policy_from_abi :: "8 word \<Rightarrow> 32 word \<Rightarrow> cache_policy option" where
  "cache_policy_from_abi tag max_age_seconds =
     (if tag = 0 \<and> max_age_seconds = 0 then Some NoStore
      else if tag = 1 \<and> max_age_seconds = 0 then Some Revalidate
      else if tag = 2 then Some (PrivateFor max_age_seconds)
      else if tag = 3 then Some (PublicFor max_age_seconds)
      else None)"

fun cache_header_value :: "cache_policy \<Rightarrow> string" where
  "cache_header_value NoStore = ''no-store''"
| "cache_header_value Revalidate = ''no-cache''"
| "cache_header_value (PrivateFor seconds) = ''private, max-age='' @ to_decimal (unat seconds)"
| "cache_header_value (PublicFor seconds) = ''public, max-age='' @ to_decimal (unat seconds)"

datatype disposition = Inline | Attachment string

record file_root_spec =
  frs_id :: string
  frs_path :: string
  frs_cache :: cache_policy

record file_plan =
  fp_root_id :: string
  fp_relative :: string
  fp_encoded_uri_path :: bool
  fp_disposition :: disposition
  fp_cache :: "cache_policy option"

datatype file_serve_failure = Overloaded | InvalidPlan | StartFailed

definition authorized_plan :: "string \<Rightarrow> string \<Rightarrow> disposition \<Rightarrow> cache_policy option \<Rightarrow> file_plan" where
  "authorized_plan root_id relative disposition cache =
     \<lparr> fp_root_id = root_id, fp_relative = relative, fp_encoded_uri_path = False,
       fp_disposition = disposition, fp_cache = cache \<rparr>"

definition native_plan :: "string \<Rightarrow> string \<Rightarrow> bool \<Rightarrow> cache_policy option \<Rightarrow> file_plan" where
  "native_plan root_id relative encoded_uri_path cache =
     \<lparr> fp_root_id = root_id, fp_relative = relative, fp_encoded_uri_path = encoded_uri_path,
       fp_disposition = Inline, fp_cache = cache \<rparr>"

record 'd file_root =
  fr_handle :: "'d"
  fr_cache :: cache_policy

record 'd file_service =
  fs_roots :: "string \<rightharpoonup> 'd file_root"
  fs_permits :: nat
  fs_chunk_bytes :: nat

record 'd ambient_fs =
  af_open_ambient_dir :: "string \<Rightarrow> 'd option"
  af_is_dir :: "'d \<Rightarrow> bool option"

datatype activate_error =
  Too_Many_Roots | Zero_Transfers | Zero_Chunk | Bad_Root_Id string | Duplicate_Root string
| Root_Missing string | Root_Uninspectable string | Root_Not_Directory string

fun activate_roots ::
  "'d ambient_fs \<Rightarrow> file_root_spec list \<Rightarrow> (string \<rightharpoonup> 'd file_root) \<Rightarrow>
     activate_error + (string \<rightharpoonup> 'd file_root)" where
  "activate_roots A [] roots = Inr roots"
| "activate_roots A (spec # specs) roots =
     (if \<not> is_ok (validate_root_id (frs_id spec)) then Inl (Bad_Root_Id (frs_id spec))
      else if roots (frs_id spec) \<noteq> None then Inl (Duplicate_Root (frs_id spec))
      else (case af_open_ambient_dir A (frs_path spec) of
              None \<Rightarrow> Inl (Root_Missing (frs_id spec))
            | Some handle \<Rightarrow>
                (case af_is_dir A handle of
                   None \<Rightarrow> Inl (Root_Uninspectable (frs_id spec))
                 | Some d \<Rightarrow>
                     if \<not> d then Inl (Root_Not_Directory (frs_id spec))
                     else activate_roots A specs
                            (roots(frs_id spec \<mapsto> \<lparr> fr_handle = handle, fr_cache = frs_cache spec \<rparr>)))))"

definition activate_service ::
  "'d ambient_fs \<Rightarrow> file_root_spec list \<Rightarrow> nat \<Rightarrow> nat \<Rightarrow> activate_error + 'd file_service" where
  "activate_service A root_specs max_concurrent chunk_bytes =
     (if length root_specs > MAX_FILE_ROOTS then Inl Too_Many_Roots
      else if max_concurrent = 0 then Inl Zero_Transfers
      else if chunk_bytes = 0 then Inl Zero_Chunk
      else bind_result (activate_roots A root_specs Map.empty) (\<lambda>roots.
             Inr \<lparr> fs_roots = roots, fs_permits = max_concurrent, fs_chunk_bytes = chunk_bytes \<rparr>))"

datatype native_route_error = Undeclared_Root string | Bad_Relative_Path path_error

definition validate_native_route ::
  "'d file_service \<Rightarrow> string \<Rightarrow> string option \<Rightarrow> native_route_error + unit" where
  "validate_native_route svc root_id relative =
     (if fs_roots svc root_id = None then Inl (Undeclared_Root root_id)
      else (case relative of
              None \<Rightarrow> Inr ()
            | Some path \<Rightarrow> (case validate_relative_path path of
                              Inl e \<Rightarrow> Inl (Bad_Relative_Path e) | Inr _ \<Rightarrow> Inr ())))"

section \<open>The headers of a representation\<close>

text \<open>Each value is parsed; a value that does not parse fails an \<open>expect\<close>.\<close>

fun insert_parsed :: "'h http_crate \<Rightarrow> (string \<times> string) list \<Rightarrow> 'h \<Rightarrow> 'h option" where
  "insert_parsed C [] headers = Some headers"
| "insert_parsed C ((name, text) # rest) headers =
     (case hv_from_str C text of
        None \<Rightarrow> None
      | Some value \<Rightarrow> insert_parsed C rest (hm_insert C headers name value))"

definition content_type :: "string \<Rightarrow> string" where
  "content_type relative =
     (let name = last (split_on CHR ''/'' relative);
          extension = to_ascii_lowercase
            (case rsplit_once CHR ''.'' name of None \<Rightarrow> [] | Some (_, e) \<Rightarrow> e) in
      if extension = ''css'' then ''text/css; charset=utf-8''
      else if extension = ''csv'' then ''text/csv; charset=utf-8''
      else if extension = ''gif'' then ''image/gif''
      else if extension = ''htm'' \<or> extension = ''html'' then ''text/html; charset=utf-8''
      else if extension = ''ico'' then ''image/x-icon''
      else if extension = ''jpeg'' \<or> extension = ''jpg'' then ''image/jpeg''
      else if extension = ''js'' \<or> extension = ''mjs'' then ''text/javascript; charset=utf-8''
      else if extension = ''json'' then ''application/json''
      else if extension = ''pdf'' then ''application/pdf''
      else if extension = ''png'' then ''image/png''
      else if extension = ''svg'' then ''image/svg+xml''
      else if extension = ''txt'' then ''text/plain; charset=utf-8''
      else if extension = ''wasm'' then ''application/wasm''
      else if extension = ''webp'' then ''image/webp''
      else if extension = ''xml'' then ''application/xml''
      else ''application/octet-stream'')"

definition representation_fields ::
  "string \<Rightarrow> nat \<Rightarrow> string option \<Rightarrow> string \<Rightarrow> cache_policy \<Rightarrow> disposition \<Rightarrow> (string \<times> string) list" where
  "representation_fields relative n last_modified etag cache disposition =
     [(''accept-ranges'', ''bytes''), (''cache-control'', cache_header_value cache),
      (''content-length'', to_decimal n), (''content-type'', content_type relative), (''etag'', etag)] @
     (case last_modified of None \<Rightarrow> [] | Some date \<Rightarrow> [(''last-modified'', date)]) @
     [(''content-disposition'',
       case disposition of Inline \<Rightarrow> ''inline'' | Attachment name \<Rightarrow> attachment_header name)]"

definition representation_headers ::
  "'h http_crate \<Rightarrow> http_date \<Rightarrow> string \<Rightarrow> nat \<Rightarrow> system_time option \<Rightarrow> string \<Rightarrow> cache_policy \<Rightarrow>
     disposition \<Rightarrow> 'h option" where
  "representation_headers C D relative n modified etag cache disposition =
     (case modified of
        None \<Rightarrow> insert_parsed C (representation_fields relative n None etag cache disposition) (hm_new C)
      | Some t \<Rightarrow>
          (case hd_fmt D t of
             None \<Rightarrow> None
           | Some date \<Rightarrow>
               insert_parsed C (representation_fields relative n (Some date) etag cache disposition) (hm_new C)))"

section \<open>The response to a file request\<close>

record file_metadata =
  fm_is_file :: bool
  fm_len :: nat
  fm_modified :: "system_time option"

record 'f file_ops =
  fo_metadata :: "'f \<Rightarrow> file_metadata option"
  fo_seek :: "'f \<Rightarrow> nat \<Rightarrow> 'f option"
  fo_read_exact :: "'f \<Rightarrow> nat \<Rightarrow> ('f \<times> string) option"

text \<open>What the thread streams after it has sent the prepared response.\<close>

record 'f file_stream =
  st_file :: "'f"
  st_length :: nat
  st_coding :: "content_coding option"

record ('h, 'f) prepared =
  pr_status :: nat
  pr_headers :: "'h"
  pr_stream :: "'f file_stream option"

definition without_body :: "nat \<Rightarrow> 'h \<Rightarrow> ('h, 'f) prepared" where
  "without_body status headers = \<lparr> pr_status = status, pr_headers = headers, pr_stream = None \<rparr>"

definition not_found :: "'h http_crate \<Rightarrow> ('h, 'f) prepared" where
  "not_found C = without_body 404 (hm_insert C (hm_new C) ''content-length'' ''0'')"

definition plan_segments :: "file_plan \<Rightarrow> path_error + string list" where
  "plan_segments plan =
     (if fp_encoded_uri_path plan then decode_uri_relative_path (fp_relative plan)
      else validate_relative_path (fp_relative plan))"

definition select_coding ::
  "'h http_crate \<Rightarrow> 'h \<Rightarrow> 'h \<Rightarrow> nat \<Rightarrow> string \<Rightarrow> (content_coding option \<times> string \<times> 'h) option" where
  "select_coding C request_headers response_headers n etag =
     (let eligible = (\<not> hm_contains_key C request_headers ''range'' \<and>
            response_is_compressible C 200 (hm_remove C response_headers ''etag'') n);
          headers = (if eligible then vary_on_accept_encoding C response_headers else response_headers);
          coding = (if eligible then preferred (from_headers C request_headers) else None) in
      case coding of
        None \<Rightarrow> Some (None, etag, headers)
      | Some c \<Rightarrow>
          (let etag' = encoded_etag etag c in
           case hv_from_str C etag' of
             None \<Rightarrow> None
           | Some value \<Rightarrow>
               Some (Some c, etag',
                 apply_content_coding C
                   (hm_remove C (hm_insert C headers ''etag'' value) ''accept-ranges'') c None)))"

definition precondition_response :: "'h http_crate \<Rightarrow> nat \<Rightarrow> 'h \<Rightarrow> ('h, 'f) prepared" where
  "precondition_response C status headers =
     without_body status
       (if status = 304
        then hm_remove C (hm_remove C (hm_remove C headers ''content-length'') ''content-type'')
               ''content-disposition''
        else hm_insert C (hm_remove C headers ''content-encoding'') ''content-length'' ''0'')"

definition respond_with ::
  "'h http_crate \<Rightarrow> 'f file_ops \<Rightarrow> 'f \<Rightarrow> string \<Rightarrow> content_coding option \<Rightarrow> nat \<Rightarrow> nat \<Rightarrow> nat \<Rightarrow> 'h \<Rightarrow>
     ('h, 'f) prepared option" where
  "respond_with C fops file method coding status start response_length headers =
     (case (if coding = None then insert_parsed C [(''content-length'', to_decimal response_length)] headers
            else Some headers) of
        None \<Rightarrow> None
      | Some headers \<Rightarrow>
          if method = ''HEAD'' \<or> response_length = 0 then Some (without_body status headers)
          else (case fo_seek fops file start of
                  None \<Rightarrow> Some (not_found C)
                | Some file' \<Rightarrow>
                    Some \<lparr> pr_status = status, pr_headers = headers,
                      pr_stream = Some \<lparr> st_file = file', st_length = response_length, st_coding = coding \<rparr> \<rparr>))"

definition respond_range ::
  "'h http_crate \<Rightarrow> 'f file_ops \<Rightarrow> 'f \<Rightarrow> string \<Rightarrow> content_coding option \<Rightarrow> nat \<Rightarrow> range_selection \<Rightarrow> 'h \<Rightarrow>
     ('h, 'f) prepared option" where
  "respond_range C fops file method coding n selected headers =
     (case selected of
        Range_Ignore \<Rightarrow> respond_with C fops file method coding 200 0 n headers
      | Range_Unsatisfiable \<Rightarrow>
          map_option (\<lambda>h. without_body 416 (hm_insert C h ''content-length'' ''0''))
            (insert_parsed C [(''content-range'', ''bytes */'' @ to_decimal n)] headers)
      | Range_Bytes start stop \<Rightarrow>
          Option.bind
            (insert_parsed C [(''content-range'',
               ''bytes '' @ to_decimal start @ ''-'' @ to_decimal stop @ ''/'' @ to_decimal n)] headers)
            (respond_with C fops file method coding 206 start (stop - start + 1)))"

definition prepare_file ::
  "'h http_crate \<Rightarrow> http_date \<Rightarrow> 'f file_ops \<Rightarrow> 'f \<Rightarrow> file_metadata \<Rightarrow> string \<Rightarrow> cache_policy \<Rightarrow>
     disposition \<Rightarrow> string \<Rightarrow> 'h \<Rightarrow> ('h, 'f) prepared option" where
  "prepare_file C D fops file metadata name cache disposition method request_headers =
     (let n = fm_len metadata; modified = fm_modified metadata; etag = weak_etag n modified in
      Option.bind (representation_headers C D name n modified etag cache disposition) (\<lambda>headers.
      Option.bind (select_coding C request_headers headers n etag) (\<lambda>(coding, etag, headers).
      case precondition_status C D request_headers etag modified method of
        Some status \<Rightarrow> Some (precondition_response C status headers)
      | None \<Rightarrow>
          respond_range C fops file method coding n
            (if if_range_allows C D request_headers etag modified
             then parse_range C request_headers n else Range_Ignore) headers)))"

definition prepare ::
  "'h http_crate \<Rightarrow> http_date \<Rightarrow> ('d, 'f) cap_fs \<Rightarrow> 'f file_ops \<Rightarrow> 'd file_root \<Rightarrow> file_plan \<Rightarrow>
     string \<Rightarrow> 'h \<Rightarrow> ('h, 'f) prepared option" where
  "prepare C D F fops root plan method request_headers =
     (case plan_segments plan of
        Inl _ \<Rightarrow> Some (not_found C)
      | Inr segments \<Rightarrow>
          (case open_relative_file F (fr_handle root) segments of
             None \<Rightarrow> Some (not_found C)
           | Some file \<Rightarrow>
               (case fo_metadata fops file of
                  None \<Rightarrow> Some (not_found C)
                | Some metadata \<Rightarrow>
                    if \<not> fm_is_file metadata then Some (not_found C)
                    else prepare_file C D fops file metadata (last segments)
                           (unwrap_or (fp_cache plan) (fr_cache root)) (fp_disposition plan) method
                           request_headers)))"

definition into_response :: "('h, 'f) prepared \<Rightarrow> ('h, 'f file_stream) server_response" where
  "into_response p =
     \<lparr> rsp_status = pr_status p, rsp_headers = pr_headers p,
       rsp_body = (case pr_stream p of
          None \<Rightarrow> Empty_Body
        | Some s \<Rightarrow> Other_Body (if st_coding s = None then Some (st_length s) else None) s) \<rparr>"

definition simple_response ::
  "'h http_crate \<Rightarrow> nat \<Rightarrow> (string \<times> string) list \<Rightarrow> string \<Rightarrow> ('h, 'b) server_response" where
  "simple_response C status headers body =
     \<lparr> rsp_status = status,
       rsp_headers = foldl (\<lambda>h (name, value). hm_insert C h name value) (hm_new C) headers,
       rsp_body = Full_Body body \<rparr>"

text \<open>
  \<open>spawn_error\<close> is the error of starting the thread, if it could not be started.  A permit is
  held on only by a response with a stream: every other path drops its lease.
\<close>

definition serve ::
  "'h http_crate \<Rightarrow> http_date \<Rightarrow> ('d, 'f) cap_fs \<Rightarrow> 'f file_ops \<Rightarrow> string option \<Rightarrow> 'd file_service \<Rightarrow>
     file_plan \<Rightarrow> string \<Rightarrow> 'h \<Rightarrow>
     ('h, 'f file_stream) server_response \<times> file_serve_failure option \<times> 'd file_service" where
  "serve C D F fops spawn_error svc plan method headers =
     (if method \<noteq> ''GET'' \<and> method \<noteq> ''HEAD''
      then (simple_response C 405 [(''allow'', ''GET, HEAD'')] ''Method Not Allowed'', None, svc)
      else (case fs_roots svc (fp_root_id plan) of
              None \<Rightarrow> (simple_response C 500 [] ''Internal Server Error'', Some InvalidPlan, svc)
            | Some root \<Rightarrow>
                if fs_permits svc = 0
                then (simple_response C 503 [] ''Native file transfer capacity is exhausted'', Some Overloaded, svc)
                else (case spawn_error of
                        Some e \<Rightarrow>
                          (simple_response C 500 [] (''Failed to start file transfer: '' @ e), Some StartFailed, svc)
                      | None \<Rightarrow>
                          (case prepare C D F fops root plan method headers of
                             None \<Rightarrow>
                               (simple_response C 500 [] ''File transfer failed before producing a response'',
                                Some StartFailed, svc)
                           | Some p \<Rightarrow>
                               (into_response p, None,
                                if pr_stream p = None then svc
                                else svc\<lparr> fs_permits := fs_permits svc - 1 \<rparr>)))))"

section \<open>Header fields of file responses\<close>

definition file_fields :: "string list" where
  "file_fields = [''accept-ranges'', ''cache-control'', ''content-length'', ''content-type'', ''etag'',
     ''last-modified'', ''content-disposition'', ''vary'', ''content-encoding'', ''content-range'']"

lemma file_fields_allowed: "list_all (\<lambda>k. \<not> forbidden_field k) file_fields"
  by code_simp

definition only_file_fields :: "'h http_crate \<Rightarrow> 'h \<Rightarrow> bool" where
  "only_file_fields C h \<longleftrightarrow> (\<forall>k. hm_get_all C h k \<noteq> [] \<longrightarrow> k \<in> set file_fields)"

lemma only_file_fieldsD: "only_file_fields C h \<Longrightarrow> forbidden_field k \<Longrightarrow> hm_get_all C h k = []"
  using file_fields_allowed by (auto simp: only_file_fields_def list_all_iff)

text \<open>The length a response states, and what it must be for its body.\<close>

definition stated_length :: "'h http_crate \<Rightarrow> 'h \<Rightarrow> nat option \<Rightarrow> bool" where
  "stated_length C h n \<longleftrightarrow> hm_get_all C h ''content-length'' = (case n of None \<Rightarrow> [] | Some m \<Rightarrow> [to_decimal m])"

definition prepared_ok :: "'h http_crate \<Rightarrow> string \<Rightarrow> ('h, 'f) prepared \<Rightarrow> bool" where
  "prepared_ok C method p \<longleftrightarrow>
     only_file_fields C (pr_headers p) \<and> pr_status p \<in> {200, 206, 304, 404, 412, 416} \<and>
     (\<exists>n. stated_length C (pr_headers p) n \<and> (\<forall>m. n = Some m \<longrightarrow> m \<le> u64_max) \<and>
        (if pr_status p = 304 then n = None \<and> pr_stream p = None
         else (case pr_stream p of
                 None \<Rightarrow> method = ''HEAD'' \<or> n = Some 0
               | Some s \<Rightarrow> method \<noteq> ''HEAD'' \<and> n = (if st_coding s = None then Some (st_length s) else None))))"

lemma prepared_okI:
  assumes "only_file_fields C (pr_headers p)" "stated_length C (pr_headers p) n"
    "pr_status p \<in> {200, 206, 304, 404, 412, 416}" "\<And>m. n = Some m \<Longrightarrow> m \<le> u64_max"
    "pr_status p = 304 \<Longrightarrow> n = None \<and> pr_stream p = None"
    "pr_status p \<noteq> 304 \<Longrightarrow> pr_stream p = None \<Longrightarrow> method = ''HEAD'' \<or> n = Some 0"
    "\<And>s. pr_stream p = Some s \<Longrightarrow> method \<noteq> ''HEAD'' \<and> n = (if st_coding s = None then Some (st_length s) else None)"
  shows "prepared_ok C method p"
  unfolding prepared_ok_def
proof (intro conjI exI [of _ n])
  show "if pr_status p = 304 then n = None \<and> pr_stream p = None
    else case pr_stream p of None \<Rightarrow> method = ''HEAD'' \<or> n = Some 0
       | Some s \<Rightarrow> method \<noteq> ''HEAD'' \<and> n = (if st_coding s = None then Some (st_length s) else None)"
    using assms(5-7) by (cases "pr_status p = 304"; cases "pr_stream p") auto
qed (use assms in auto)

lemma zero_decimal: "''0'' = to_decimal 0"
  by code_simp

definition static_types :: "string list" where
  "static_types = [''text/css; charset=utf-8'', ''text/csv; charset=utf-8'', ''image/gif'',
    ''text/html; charset=utf-8'', ''image/x-icon'', ''image/jpeg'', ''text/javascript; charset=utf-8'',
    ''application/json'', ''application/pdf'', ''image/png'', ''image/svg+xml'', ''text/plain; charset=utf-8'',
    ''application/wasm'', ''image/webp'', ''application/xml'', ''application/octet-stream'']"

lemma content_type_static: "content_type relative \<in> set static_types"
  by (simp add: content_type_def static_types_def Let_def)

lemma visible_strings:
  "list_all visible_ascii (cache_header_value cache)" "list_all visible_ascii (content_type relative)"
  "list_all visible_ascii (to_decimal n)"
proof -
  show d: "list_all visible_ascii (to_decimal n)" for n by (rule digits_visible_ascii) simp
  have "list_all visible_ascii ''no-store''" "list_all visible_ascii ''no-cache''"
    "list_all visible_ascii ''private, max-age=''" "list_all visible_ascii ''public, max-age=''" by code_simp+
  with d show "list_all visible_ascii (cache_header_value cache)" by (cases cache) simp_all
  have "list_all (list_all visible_ascii) static_types" by code_simp
  then have "\<forall>t\<in>set static_types. list_all visible_ascii t"
    unfolding list_all_iff [of "list_all visible_ascii"] .
  with content_type_static show "list_all visible_ascii (content_type relative)" by blast
qed

lemma representation_fields_names:
  "distinct (map fst (representation_fields relative n date etag cache disposition))"
  "set (map fst (representation_fields relative n date etag cache disposition)) \<subseteq> set file_fields"
  by (cases date; simp add: representation_fields_def file_fields_def)+

lemma representation_fields_values:
  "map_of (representation_fields relative n date etag cache disposition) ''content-length'' = Some (to_decimal n)"
  "map_of (representation_fields relative n date etag cache disposition) ''content-encoding'' = None"
  "map_of (representation_fields relative n date etag cache disposition) ''content-range'' = None"
  "map_of (representation_fields relative n date etag cache disposition) ''etag'' = Some etag"
  "map_of (representation_fields relative n date etag cache disposition) ''accept-ranges'' = Some ''bytes''"
  by (cases date; simp add: representation_fields_def)+

lemma representation_fields_visible:
  assumes "list_all visible_ascii etag" "\<And>d. date = Some d \<Longrightarrow> list_all visible_ascii d"
  shows "\<forall>kv\<in>set (representation_fields relative n date etag cache disposition). list_all visible_ascii (snd kv)"
proof -
  have v: "list_all visible_ascii ''inline''" "list_all visible_ascii ''bytes''" by code_simp+
  then have "list_all visible_ascii (case disposition of Inline \<Rightarrow> ''inline'' | Attachment name \<Rightarrow> attachment_header name)"
    by (cases disposition) (simp_all only: disposition.case attachment_header_visible)
  with v(2) assms visible_strings show ?thesis
    unfolding representation_fields_def by (cases date) (simp_all del: list.pred_inject)
qed

context http_laws
begin

lemma insert_parsed_get:
  "insert_parsed C kvs h = Some h' \<Longrightarrow> distinct (map fst kvs) \<Longrightarrow>
     hm_get_all C h' k = (case map_of kvs k of Some v \<Rightarrow> [v] | None \<Rightarrow> hm_get_all C h k)"
proof (induction kvs arbitrary: h)
  case (Cons kv kvs)
  obtain k' v' where kv: "kv = (k', v')" by (cases kv)
  from Cons.prems kv obtain v where v: "hv_from_str C v' = Some v"
    "insert_parsed C kvs (hm_insert C h k' v) = Some h'" by (auto split: option.splits)
  then have "v = v'" using from_str_sound by blast
  moreover have "map_of kvs k' = None" using Cons.prems(2) kv by (simp add: map_of_eq_None_iff)
  ultimately show ?case using Cons.IH [OF v(2)] Cons.prems(2) kv by (auto split: option.splits)
qed simp

lemma insert_parsed_total:
  "\<forall>kv\<in>set kvs. list_all visible_ascii (snd kv) \<Longrightarrow> \<exists>h'. insert_parsed C kvs h = Some h'"
proof (induction kvs arbitrary: h)
  case (Cons kv kvs)
  then show ?case using from_str_visible by (cases kv) simp
qed simp

lemma insert_parsed_fields:
  assumes "insert_parsed C kvs h = Some h'" "distinct (map fst kvs)" "only_file_fields C h"
    "set (map fst kvs) \<subseteq> set file_fields"
  shows "only_file_fields C h'"
  using assms(3,4) insert_parsed_get [OF assms(1,2)]
  by (fastforce simp: only_file_fields_def split: option.splits dest: map_of_SomeD)

lemma only_fields_new: "only_file_fields C (hm_new C)"
  by (simp add: only_file_fields_def)

lemma only_fields_insert: "only_file_fields C h \<Longrightarrow> k \<in> set file_fields \<Longrightarrow> only_file_fields C (hm_insert C h k v)"
  by (simp add: only_file_fields_def)

lemma only_fields_remove: "only_file_fields C h \<Longrightarrow> only_file_fields C (hm_remove C h k)"
  by (simp add: only_file_fields_def)

lemma only_fields_vary: "only_file_fields C h \<Longrightarrow> only_file_fields C (vary_on_accept_encoding C h)"
proof -
  have "''vary'' \<in> set file_fields" by (simp add: file_fields_def)
  then show "only_file_fields C h \<Longrightarrow> only_file_fields C (vary_on_accept_encoding C h)"
    by (simp add: only_file_fields_def vary_on_accept_encoding_def)
qed

lemma only_fields_apply: "only_file_fields C h \<Longrightarrow> only_file_fields C (apply_content_coding C h c n)"
  unfolding apply_content_coding_def Let_def
  by (auto intro!: only_fields_insert only_fields_remove only_fields_vary simp: file_fields_def split: option.split)

lemmas only_fields_intros = only_fields_new only_fields_insert only_fields_remove only_fields_vary only_fields_apply

lemma representation_headers_fields:
  assumes "representation_headers C D relative n modified etag cache disposition = Some h"
  obtains date where "insert_parsed C (representation_fields relative n date etag cache disposition) (hm_new C) = Some h"
  using assms that by (auto simp: representation_headers_def split: option.splits)

lemma representation_headers_ok:
  assumes "representation_headers C D relative n modified etag cache disposition = Some h"
  shows "only_file_fields C h \<and> stated_length C h (Some n) \<and> hm_get_all C h ''content-encoding'' = [] \<and>
    hm_get_all C h ''content-range'' = [] \<and> hm_get_all C h ''etag'' = [etag] \<and>
    hm_get_all C h ''accept-ranges'' = [''bytes'']"
proof -
  from assms obtain date where
    p: "insert_parsed C (representation_fields relative n date etag cache disposition) (hm_new C) = Some h"
    by (rule representation_headers_fields)
  note k = representation_fields_names [of relative n date etag cache disposition]
  show ?thesis
    using insert_parsed_get [OF p k(1)] insert_parsed_fields [OF p k(1) only_fields_new k(2)]
      representation_fields_values [of relative n date etag cache disposition] by (simp add: stated_length_def)
qed

lemma representation_headers_total:
  assumes "list_all visible_ascii etag" "\<And>t. modified = Some t \<Longrightarrow> \<exists>s. hd_fmt D t = Some s \<and> list_all visible_ascii s"
  shows "\<exists>h. representation_headers C D relative n modified etag cache disposition = Some h"
proof (cases modified)
  case None
  show ?thesis unfolding representation_headers_def None option.case
    by (rule insert_parsed_total) (rule representation_fields_visible, use assms in simp_all)
next
  case (Some t)
  with assms(2) obtain s where s: "hd_fmt D t = Some s" "list_all visible_ascii s" by blast
  show ?thesis unfolding representation_headers_def Some s option.case
    by (rule insert_parsed_total) (rule representation_fields_visible, use assms s in simp_all)
qed

lemma select_coding_ok:
  assumes "select_coding C req h0 n etag = Some (coding, etag', h)" "only_file_fields C h0"
  shows "only_file_fields C h \<and>
    (coding = None \<longrightarrow> etag' = etag \<and> hm_get_all C h ''content-length'' = hm_get_all C h0 ''content-length'' \<and>
       hm_get_all C h ''content-encoding'' = hm_get_all C h0 ''content-encoding'') \<and>
    (\<forall>c. coding = Some c \<longrightarrow> hm_get_all C req ''range'' = [] \<and> n \<ge> MIN_COMPRESSION_BYTES \<and>
       etag' = encoded_etag etag c \<and> hm_get_all C h ''content-length'' = [] \<and>
       hm_get_all C h ''content-encoding'' = [coding_str c] \<and> hm_get_all C h ''accept-ranges'' = [] \<and>
       hm_get_all C h ''etag'' = [encoded_etag etag c]) \<and>
    hm_get_all C h ''content-range'' = hm_get_all C h0 ''content-range''"
proof (cases coding)
  case None
  then have "h = h0 \<or> h = vary_on_accept_encoding C h0" "etag' = etag"
    using assms(1) by (auto simp: select_coding_def Let_def split: option.splits if_splits)
  then show ?thesis using assms(2) None only_fields_vary get_all_vary by auto
next
  case (Some c)
  with assms(1) obtain v where e: "\<not> hm_contains_key C req ''range''" "n \<ge> MIN_COMPRESSION_BYTES"
    "hv_from_str C (encoded_etag etag c) = Some v" "etag' = encoded_etag etag c"
    "h = apply_content_coding C (hm_remove C (hm_insert C (vary_on_accept_encoding C h0) ''etag'' v) ''accept-ranges'') c None"
    by (auto simp: select_coding_def Let_def response_is_compressible_def split: option.splits if_splits)
  moreover have "v = encoded_etag etag c" using from_str_sound [OF e(3)] by simp
  moreover have "only_file_fields C h"
    unfolding e(5) using assms(2) by (intro only_fields_intros) (auto simp: file_fields_def)
  ultimately show ?thesis using Some by (simp add: contains_key_iff get_all_apply get_all_vary)
qed

lemma select_coding_total:
  assumes "host_etag etag"
  shows "\<exists>r. select_coding C req h n etag = Some r"
proof -
  have "hv_from_str C (encoded_etag etag c) = Some (encoded_etag etag c)" for c
    using from_str_visible host_etag_member(3) [OF encoded_etag_host [OF assms]] by blast
  then show ?thesis by (simp add: select_coding_def Let_def split: option.split)
qed

lemma not_found_ok: "prepared_ok C method (not_found C)"
proof -
  have "stated_length C (hm_insert C (hm_new C) ''content-length'' ''0'') (Some 0)"
    by (simp add: stated_length_def zero_decimal)
  then show ?thesis
    unfolding prepared_ok_def not_found_def without_body_def
    by (auto intro!: only_fields_intros exI [of _ "Some 0"] simp: file_fields_def)
qed

lemma respond_with_ok:
  assumes "respond_with C fops file method coding status start m h = Some p" "only_file_fields C h"
    "status \<in> {200, 206}" "coding \<noteq> None \<longrightarrow> hm_get_all C h ''content-length'' = [] \<and> m > 0" "m \<le> u64_max"
  shows "prepared_ok C method p"
proof -
  from assms(1) obtain h' where h': "if coding = None then insert_parsed C [(''content-length'', to_decimal m)] h = Some h' else h' = h"
    and p: "p = without_body status h' \<and> (method = ''HEAD'' \<or> m = 0) \<or> p = not_found C \<or>
      (\<exists>f. method \<noteq> ''HEAD'' \<and> p = \<lparr> pr_status = status, pr_headers = h',
        pr_stream = Some \<lparr> st_file = f, st_length = m, st_coding = coding \<rparr> \<rparr>)"
    by (auto simp: respond_with_def split: if_splits option.splits)
  have "only_file_fields C h' \<and> stated_length C h' (if coding = None then Some m else None)"
  proof (cases "coding = None")
    case True
    then have i: "insert_parsed C [(''content-length'', to_decimal m)] h = Some h'" using h' by simp
    then show ?thesis
      using True insert_parsed_get [OF i] insert_parsed_fields [OF i _ assms(2)]
      by (simp add: stated_length_def file_fields_def)
  next
    case False
    then show ?thesis using h' assms(2,4) by (simp add: stated_length_def)
  qed
  then have h: "only_file_fields C h'" "stated_length C h' (if coding = None then Some m else None)" by auto
  from p show ?thesis
  proof (elim disjE exE conjE)
    show "p = not_found C \<Longrightarrow> prepared_ok C method p" using not_found_ok by simp
  next
    assume w: "p = without_body status h'" "method = ''HEAD''"
    show ?thesis
      by (rule prepared_okI [where n = "if coding = None then Some m else None"])
        (use w h assms(3,5) in \<open>auto simp: without_body_def split: if_splits\<close>)
  next
    assume w: "p = without_body status h'" "m = 0"
    show ?thesis
      by (rule prepared_okI [where n = "Some 0"])
        (use w h assms(3-5) in \<open>auto simp: without_body_def split: if_splits\<close>)
  next
    fix f
    assume w: "method \<noteq> ''HEAD''" "p = \<lparr> pr_status = status, pr_headers = h',
        pr_stream = Some \<lparr> st_file = f, st_length = m, st_coding = coding \<rparr> \<rparr>"
    show ?thesis
      by (rule prepared_okI [where n = "if coding = None then Some m else None"])
        (use w h assms(3,5) in \<open>auto split: if_splits\<close>)
  qed
qed

lemma precondition_response_ok:
  assumes "only_file_fields C h" "status \<in> {304, 412}"
  shows "prepared_ok C method (precondition_response C status h)"
proof (cases "status = 304")
  case True
  show ?thesis
    by (rule prepared_okI [where n = None])
      (use True assms(1) in \<open>auto simp: precondition_response_def without_body_def stated_length_def
         intro!: only_fields_intros\<close>)
next
  case False
  have "''content-length'' \<in> set file_fields" by (simp add: file_fields_def)
  then have "only_file_fields C (pr_headers (precondition_response C status h :: ('h, 'f) prepared))"
    using False assms(1) only_fields_insert only_fields_remove
    by (simp add: precondition_response_def without_body_def)
  moreover have "stated_length C (pr_headers (precondition_response C status h :: ('h, 'f) prepared)) (Some 0)"
    using False by (simp add: precondition_response_def without_body_def stated_length_def zero_decimal)
  ultimately show ?thesis
    by (rule prepared_okI) (use False assms(2) in \<open>auto simp: precondition_response_def without_body_def\<close>)
qed

lemma content_range_insert:
  assumes "insert_parsed C [(''content-range'', v)] h = Some h'"
  shows "hm_get_all C h' k = (if k = ''content-range'' then [v] else hm_get_all C h k)"
    "only_file_fields C h \<Longrightarrow> only_file_fields C h'"
  using insert_parsed_get [OF assms, of k] insert_parsed_fields [OF assms] by (simp_all add: file_fields_def)

lemma respond_range_ok:
  assumes r: "respond_range C fops file method coding n selected h = Some p" and h: "only_file_fields C h"
    and c: "coding \<noteq> None \<longrightarrow> hm_get_all C h ''content-length'' = [] \<and> selected = Range_Ignore \<and> n > 0"
    and b: "\<And>s e. selected = Range_Bytes s e \<Longrightarrow> s \<le> e \<and> e < n" and n: "n \<le> u64_max"
  shows "prepared_ok C method p"
proof (cases selected)
  case Range_Ignore
  with r have "respond_with C fops file method coding 200 0 n h = Some p" by (simp add: respond_range_def)
  then show ?thesis by (rule respond_with_ok) (use h c n in auto)
next
  case Range_Unsatisfiable
  with r obtain h' where h': "insert_parsed C [(''content-range'', ''bytes */'' @ to_decimal n)] h = Some h'"
    and p: "p = without_body 416 (hm_insert C h' ''content-length'' ''0'')" by (auto simp: respond_range_def)
  have "''content-length'' \<in> set file_fields" by (simp add: file_fields_def)
  then have "only_file_fields C (pr_headers p)"
    using content_range_insert(2) [OF h' h] only_fields_insert p by (simp add: without_body_def)
  moreover have "stated_length C (pr_headers p) (Some 0)"
    using p by (simp add: without_body_def stated_length_def zero_decimal)
  ultimately show ?thesis by (rule prepared_okI) (use p in \<open>auto simp: without_body_def\<close>)
next
  case (Range_Bytes s e)
  with r obtain h' where h': "insert_parsed C [(''content-range'',
        ''bytes '' @ to_decimal s @ ''-'' @ to_decimal e @ ''/'' @ to_decimal n)] h = Some h'"
    and p: "respond_with C fops file method coding 206 s (e - s + 1) h' = Some p"
    by (auto simp: respond_range_def bind_eq_Some_conv)
  show ?thesis
    using p by (rule respond_with_ok) (use content_range_insert(2) [OF h' h] Range_Bytes c b n in auto)
qed

lemma no_range_ignored: "hm_get_all C req ''range'' = [] \<Longrightarrow> parse_range C req n = Range_Ignore"
  by (simp add: parse_range_def)

text \<open>How the response of an existing file comes about.\<close>

lemma prepare_file_cases:
  assumes "prepare_file C D fops file m name cache disposition method req = Some p"
  obtains h0 coding etag h where
    "representation_headers C D name (fm_len m) (fm_modified m) (weak_etag (fm_len m) (fm_modified m)) cache disposition = Some h0"
    "select_coding C req h0 (fm_len m) (weak_etag (fm_len m) (fm_modified m)) = Some (coding, etag, h)"
    "\<forall>status. precondition_status C D req etag (fm_modified m) method = Some status \<longrightarrow>
       p = precondition_response C status h"
    "precondition_status C D req etag (fm_modified m) method = None \<longrightarrow>
       respond_range C fops file method coding (fm_len m)
         (if if_range_allows C D req etag (fm_modified m) then parse_range C req (fm_len m) else Range_Ignore) h = Some p"
  using assms that
  by (auto simp: prepare_file_def Let_def bind_eq_Some_conv split: option.splits prod.splits)

lemma precondition_status_values:
  "precondition_status C D req etag t method = Some status \<Longrightarrow> method = ''GET'' \<or> method = ''HEAD'' \<Longrightarrow>
     status \<in> {304, 412}"
  by (auto simp: precondition_status_def split: if_splits option.splits)

lemma prepare_file_ok:
  assumes p: "prepare_file C D fops file m name cache disposition method req = Some p"
    and "method = ''GET'' \<or> method = ''HEAD''" "fm_len m \<le> u64_max"
  shows "prepared_ok C method p"
proof -
  from p obtain h0 coding etag h where
    h0: "representation_headers C D name (fm_len m) (fm_modified m) (weak_etag (fm_len m) (fm_modified m)) cache disposition = Some h0"
    and sc: "select_coding C req h0 (fm_len m) (weak_etag (fm_len m) (fm_modified m)) = Some (coding, etag, h)"
    and pre: "\<forall>status. precondition_status C D req etag (fm_modified m) method = Some status \<longrightarrow>
       p = precondition_response C status h"
    and rr: "precondition_status C D req etag (fm_modified m) method = None \<longrightarrow>
       respond_range C fops file method coding (fm_len m)
         (if if_range_allows C D req etag (fm_modified m) then parse_range C req (fm_len m) else Range_Ignore) h = Some p"
    by (rule prepare_file_cases)
  note s = select_coding_ok [OF sc]
  have h: "only_file_fields C h" using s representation_headers_ok [OF h0] by blast
  show ?thesis
  proof (cases "precondition_status C D req etag (fm_modified m) method")
    case (Some status)
    with pre precondition_response_ok [OF h] precondition_status_values [OF Some assms(2)] show ?thesis by simp
  next
    case None
    with rr have r: "respond_range C fops file method coding (fm_len m)
         (if if_range_allows C D req etag (fm_modified m) then parse_range C req (fm_len m) else Range_Ignore) h = Some p" by simp
    show ?thesis
    proof (rule respond_range_ok [OF r h])
      show "coding \<noteq> None \<longrightarrow> hm_get_all C h ''content-length'' = [] \<and>
          (if if_range_allows C D req etag (fm_modified m) then parse_range C req (fm_len m) else Range_Ignore) = Range_Ignore \<and>
          0 < fm_len m"
        using s representation_headers_ok [OF h0] no_range_ignored [of req "fm_len m"]
        by (cases coding) (auto simp: MIN_COMPRESSION_BYTES_def)
    qed (use assms(3) in \<open>auto split: if_splits dest: parse_range_bounds\<close>)
  qed
qed

lemma prepare_ok:
  assumes "prepare C D F fops root plan method req = Some p" "method = ''GET'' \<or> method = ''HEAD''"
    "\<And>f m. fo_metadata fops f = Some m \<Longrightarrow> fm_len m \<le> u64_max"
  shows "prepared_ok C method p"
  using assms not_found_ok prepare_file_ok
  by (fastforce simp: prepare_def split: sum.splits option.splits if_splits)

lemma prepared_finalizes:
  assumes ok: "prepared_ok C method p" and m: "method = ''GET'' \<or> method = ''HEAD''"
  shows "\<exists>r. finalize_response C (into_response p) \<lparr> rs_method = method, rs_version = v \<rparr> = Inr r \<and>
    rsp_status r = pr_status p"
proof -
  from ok obtain n where n: "stated_length C (pr_headers p) n" "\<forall>k. n = Some k \<longrightarrow> k \<le> u64_max"
    "if pr_status p = 304 then n = None \<and> pr_stream p = None
     else (case pr_stream p of None \<Rightarrow> method = ''HEAD'' \<or> n = Some 0
           | Some s \<Rightarrow> method \<noteq> ''HEAD'' \<and> n = (if st_coding s = None then Some (st_length s) else None))"
    unfolding prepared_ok_def by blast
  have f: "only_file_fields C (pr_headers p)" "pr_status p \<in> {200, 206, 304, 404, 412, 416}"
    using ok by (simp_all add: prepared_ok_def)
  let ?r = "into_response p" and ?req = "\<lparr> rs_method = method, rs_version = v \<rparr>"
  let ?rule = "if pr_status p = 304 then Length_Forbidden else Length_Representation"
  have "\<exists>r'. finalize_response C ?r ?req = Inr r' \<and> rsp_status r' = rsp_status ?r \<and>
    (\<forall>k. hm_get_all C (rsp_headers r') k = hm_get_all C (rsp_headers ?r) k) \<and>
    rsp_body r' = (if ?rule = Length_Representation \<and> rs_method ?req = ''HEAD'' then Empty_Body else rsp_body ?r)"
  proof (rule finalize_stable [where n = n])
    show "length_rule (rsp_status ?r) ?req = Inr ?rule"
      using f(2) m by (auto simp: length_rule_def into_response_def sc_is_informational_def)
    show "hm_get_all C (rsp_headers ?r) k = []" if "forbidden_field k" for k
      using only_file_fieldsD [OF f(1) that] by (simp add: into_response_def)
    show "hm_get_all C (rsp_headers ?r) ''content-length'' = (case n of None \<Rightarrow> [] | Some k \<Rightarrow> [to_decimal k])"
      using n(1) by (simp add: stated_length_def into_response_def)
    show "rsp_status ?r = 205 \<Longrightarrow> body_exact (rsp_body ?r) = Some 0"
      using f(2) by (auto simp: into_response_def)
    show "if ?rule = Length_Forbidden then n = None \<and> body_exact (rsp_body ?r) = Some 0
      else if rs_method ?req = ''HEAD'' then body_exact (rsp_body ?r) = Some 0 \<or> body_exact (rsp_body ?r) = n
      else n = body_exact (rsp_body ?r)"
      using n(3) by (cases "pr_stream p") (auto simp: into_response_def split: if_splits)
  qed (use n(2) in auto)
  then show ?thesis by (auto simp: into_response_def)
qed

end

text \<open>The fixed responses of the file server.\<close>

definition fixed_file_response :: "'h http_crate \<Rightarrow> ('h, 'b) server_response \<Rightarrow> bool" where
  "fixed_file_response C response \<longleftrightarrow>
     (\<exists>status kvs body. status \<in> {405, 500, 503} \<and> (kvs = [] \<or> kvs = [(''allow'', ''GET, HEAD'')]) \<and>
        response = simple_response C status kvs body)"

lemma fixed_file_responseI:
  "fixed_file_response C (simple_response C 405 [(''allow'', ''GET, HEAD'')] body)"
  "fixed_file_response C (simple_response C 500 [] body)"
  "fixed_file_response C (simple_response C 503 [] body)"
  unfolding fixed_file_response_def by blast+

context http_laws
begin

lemma respond_with_stream:
  assumes "respond_with C fops file method coding status start m h = Some p" "pr_stream p = Some s"
  shows "pr_status p = status \<and> method \<noteq> ''HEAD'' \<and> fo_seek fops file start = Some (st_file s) \<and> st_length s = m \<and>
    m > 0 \<and> st_coding s = coding \<and>
    (\<forall>k. hm_get_all C (pr_headers p) k =
       (if coding = None \<and> k = ''content-length'' then [to_decimal m] else hm_get_all C h k))"
proof -
  from assms obtain h' where p: "p = \<lparr> pr_status = status, pr_headers = h', pr_stream = Some s \<rparr>"
    "method \<noteq> ''HEAD''" "m > 0" "fo_seek fops file start = Some (st_file s)" "st_length s = m" "st_coding s = coding"
    and h: "if coding = None then insert_parsed C [(''content-length'', to_decimal m)] h = Some h' else h' = h"
    by (auto simp: respond_with_def without_body_def not_found_def split: if_splits option.splits)
  have "hm_get_all C h' k = (if coding = None \<and> k = ''content-length'' then [to_decimal m] else hm_get_all C h k)" for k
    using h insert_parsed_get [of "[(''content-length'', to_decimal m)]" h h' k] by (auto split: if_splits)
  with p show ?thesis by simp
qed

lemma respond_range_stream:
  assumes r: "respond_range C fops file method coding n selected h = Some p" and s: "pr_stream p = Some s"
  shows "selected = Range_Ignore \<and> respond_with C fops file method coding 200 0 n h = Some p \<or>
    (\<exists>a b h'. selected = Range_Bytes a b \<and> respond_with C fops file method coding 206 a (b - a + 1) h' = Some p \<and>
       (\<forall>k. hm_get_all C h' k = (if k = ''content-range''
          then [''bytes '' @ to_decimal a @ ''-'' @ to_decimal b @ ''/'' @ to_decimal n] else hm_get_all C h k)))"
proof (cases selected)
  case (Range_Bytes a b)
  with r obtain h' where h': "insert_parsed C [(''content-range'',
        ''bytes '' @ to_decimal a @ ''-'' @ to_decimal b @ ''/'' @ to_decimal n)] h = Some h'"
    and p: "respond_with C fops file method coding 206 a (b - a + 1) h' = Some p"
    by (auto simp: respond_range_def bind_eq_Some_conv)
  with Range_Bytes content_range_insert(1) [OF h'] show ?thesis by blast
qed (use r s in \<open>auto simp: respond_range_def without_body_def\<close>)

lemma simple_response_finalizes:
  fixes response :: "('h, 'b) server_response"
  assumes "fixed_file_response C response"
  shows "\<exists>r. finalize_response C response req = Inr r \<and> rsp_status r = rsp_status response"
proof -
  from assms obtain status kvs body where s: "status \<in> {405, 500, 503}" and k: "kvs = [] \<or> kvs = [(''allow'', ''GET, HEAD'')]"
    and r: "response = simple_response C status kvs body" unfolding fixed_file_response_def by blast
  have "\<not> forbidden_field ''allow''" by code_simp
  then have h: "forbidden_field f \<Longrightarrow> hm_get_all C (rsp_headers response) f = []"
    "hm_get_all C (rsp_headers response) ''content-length'' = []" for f
    using k by (auto simp: r simple_response_def)
  show ?thesis
    by (rule finalize_unstated [where b = "length body"])
      (use s h in \<open>auto simp: r simple_response_def length_rule_def sc_is_informational_def sc_is_success_def\<close>)
qed

end

lemma serve_cases:
  assumes "serve C D F fops spawn_error svc plan method req = (response, failure, svc')"
  shows "(\<exists>p root. prepare C D F fops root plan method req = Some p \<and> response = into_response p \<and>
      (method = ''GET'' \<or> method = ''HEAD'')) \<or> fixed_file_response C response"
proof (cases "fixed_file_response C response")
  case False
  then have "method = ''GET'' \<or> method = ''HEAD''" using assms by (auto simp: serve_def fixed_file_responseI split: if_splits)
  moreover obtain root where "fs_roots svc (fp_root_id plan) = Some root" "fs_permits svc \<noteq> 0" "spawn_error = None"
    using assms calculation False
    by (cases "fs_roots svc (fp_root_id plan)"; cases "fs_permits svc = 0"; cases spawn_error)
      (auto simp: serve_def fixed_file_responseI)
  moreover from calculation obtain p where "prepare C D F fops root plan method req = Some p" "response = into_response p"
    using assms False
    by (cases "prepare C D F fops root plan method req") (auto simp: serve_def fixed_file_responseI)
  ultimately show ?thesis by blast
qed simp

section \<open>Properties\<close>

text \<open>C32: what is streamed is what the fields say.  A response with a body is a 200 or a 206.  A 206
  is not content-coded, its body is the selected range of the file, read from the start of the range,
  and \<open>Content-Range\<close> and \<open>Content-Length\<close> state exactly this range.  A 200 streams the
  whole file from its start; without a coding it states the file's length, with a coding it names the
  coding, states no length, offers no ranges and has the tag of that coding.\<close>

theorem file_response_content:
  assumes "http_laws C"
    and "prepare_file C D fops file m name cache disposition method req = Some p" "pr_stream p = Some s"
  shows "method \<noteq> ''HEAD'' \<and>
    (pr_status p = 206 \<and> st_coding s = None \<and> hm_get_all C (pr_headers p) ''content-encoding'' = [] \<and>
       (\<exists>a b. parse_range C req (fm_len m) = Range_Bytes a b \<and> a \<le> b \<and> b < fm_len m \<and>
          fo_seek fops file a = Some (st_file s) \<and> st_length s = b - a + 1 \<and>
          hm_get_all C (pr_headers p) ''content-range'' =
            [''bytes '' @ to_decimal a @ ''-'' @ to_decimal b @ ''/'' @ to_decimal (fm_len m)] \<and>
          hm_get_all C (pr_headers p) ''content-length'' = [to_decimal (b - a + 1)]) \<or>
     pr_status p = 200 \<and> fo_seek fops file 0 = Some (st_file s) \<and> st_length s = fm_len m \<and>
       hm_get_all C (pr_headers p) ''content-range'' = [] \<and>
       (case st_coding s of
          None \<Rightarrow> hm_get_all C (pr_headers p) ''content-length'' = [to_decimal (fm_len m)] \<and>
            hm_get_all C (pr_headers p) ''content-encoding'' = []
        | Some c \<Rightarrow> hm_get_all C (pr_headers p) ''content-length'' = [] \<and>
            hm_get_all C (pr_headers p) ''content-encoding'' = [coding_str c] \<and>
            hm_get_all C (pr_headers p) ''accept-ranges'' = [] \<and>
            hm_get_all C (pr_headers p) ''etag'' = [encoded_etag (weak_etag (fm_len m) (fm_modified m)) c]))"
proof -
  from http_laws.prepare_file_cases [OF assms(1,2)] obtain h0 coding etag h where
    h0: "representation_headers C D name (fm_len m) (fm_modified m) (weak_etag (fm_len m) (fm_modified m)) cache disposition = Some h0"
    and sc: "select_coding C req h0 (fm_len m) (weak_etag (fm_len m) (fm_modified m)) = Some (coding, etag, h)"
    and pre: "\<forall>status. precondition_status C D req etag (fm_modified m) method = Some status \<longrightarrow>
       p = precondition_response C status h"
    and rr: "precondition_status C D req etag (fm_modified m) method = None \<longrightarrow>
       respond_range C fops file method coding (fm_len m)
         (if if_range_allows C D req etag (fm_modified m) then parse_range C req (fm_len m) else Range_Ignore) h = Some p"
    by blast
  note rh = http_laws.representation_headers_ok [OF assms(1) h0]
  note so = http_laws.select_coding_ok [OF assms(1) sc]
  have "precondition_status C D req etag (fm_modified m) method = None"
    using pre assms(3) by (cases "precondition_status C D req etag (fm_modified m) method")
      (auto simp: precondition_response_def without_body_def)
  with rr have r: "respond_range C fops file method coding (fm_len m)
     (if if_range_allows C D req etag (fm_modified m) then parse_range C req (fm_len m) else Range_Ignore) h = Some p" by simp
  from http_laws.respond_range_stream [OF assms(1) r assms(3)] show ?thesis
  proof (elim disjE exE conjE)
    assume "respond_with C fops file method coding 200 0 (fm_len m) h = Some p"
    from http_laws.respond_with_stream [OF assms(1) this assms(3)] so rh show ?thesis
      by (cases coding) (auto simp: stated_length_def)
  next
    fix a b h'
    assume sel: "(if if_range_allows C D req etag (fm_modified m) then parse_range C req (fm_len m) else Range_Ignore) = Range_Bytes a b"
      and w: "respond_with C fops file method coding 206 a (b - a + 1) h' = Some p"
      and h': "\<forall>k. hm_get_all C h' k = (if k = ''content-range''
          then [''bytes '' @ to_decimal a @ ''-'' @ to_decimal b @ ''/'' @ to_decimal (fm_len m)] else hm_get_all C h k)"
    have pr: "parse_range C req (fm_len m) = Range_Bytes a b" using sel by (simp split: if_splits)
    then have c: "coding = None" using so rh http_laws.no_range_ignored [OF assms(1), of req "fm_len m"] by (cases coding) auto
    from http_laws.respond_with_stream [OF assms(1) w assms(3)] so rh pr c h' parse_range_bounds [OF pr] show ?thesis
      by simp
  qed
qed

lemma sample_prepare:
  "prepare_file list_http decimal_date \<lparr> fo_metadata = (\<lambda>f. None), fo_seek = (\<lambda>f k. Some (drop k f)), fo_read_exact = (\<lambda>f k. None) \<rparr>
     ''hello'' \<lparr> fm_is_file = True, fm_len = 5, fm_modified = None \<rparr> ''a.txt'' NoStore Inline ''GET''
     [(''range'', ''bytes=1-2'')] =
   Some \<lparr> pr_status = 206, pr_headers =
     [(''accept-ranges'', ''bytes''), (''cache-control'', ''no-store''), (''content-type'', ''text/plain; charset=utf-8''),
      (''etag'', weak_etag 5 None), (''content-disposition'', ''inline''), (''content-range'', ''bytes 1-2/5''),
      (''content-length'', ''2'')],
     pr_stream = Some \<lparr> st_file = ''ello'', st_length = 2, st_coding = None \<rparr> \<rparr>"
  by code_simp

theorem file_response_content_witness:
  "hm_get_all list_http [(''accept-ranges'', ''bytes''), (''cache-control'', ''no-store''), (''content-type'', ''text/plain; charset=utf-8''),
      (''etag'', weak_etag 5 None), (''content-disposition'', ''inline''), (''content-range'', ''bytes 1-2/5''),
      (''content-length'', ''2'')] ''content-encoding'' = []"
  using file_response_content [OF list_http.http_laws_axioms sample_prepare] by simp

text \<open>C33: no file request fails in framing.  Whatever the plan, method and request fields, and
  whatever the file system answers, the response of the file server passes the finalisation of
  responses unchanged in status, for every protocol version; so a file request can end in an
  internal error only where the file server itself chose one.\<close>

theorem file_responses_finalize:
  fixes C :: "'h http_crate" and fops :: "'f file_ops"
  assumes "http_laws C" "\<And>f m. fo_metadata fops f = Some m \<Longrightarrow> fm_len m \<le> u64_max"
    and "serve C D F fops spawn_error svc plan method req = (response, failure, svc')"
  shows "\<exists>r. finalize_response C response \<lparr> rs_method = method, rs_version = v \<rparr> = Inr r \<and>
    rsp_status r = rsp_status response"
proof -
  from serve_cases [OF assms(3)] show ?thesis
  proof
    assume "\<exists>p root. prepare C D F fops root plan method req = Some p \<and> response = into_response p \<and>
      (method = ''GET'' \<or> method = ''HEAD'')"
    then obtain p root where p: "prepare C D F fops root plan method req = Some p" "response = into_response p"
      and m: "method = ''GET'' \<or> method = ''HEAD''" by blast
    have "prepared_ok C method p" by (rule http_laws.prepare_ok [OF assms(1) p(1) m assms(2)])
    from http_laws.prepared_finalizes [OF assms(1) this m, of v] p(2) show ?thesis by (simp add: into_response_def)
  next
    assume "fixed_file_response C response"
    then show ?thesis by (rule http_laws.simple_response_finalizes [OF assms(1)])
  qed
qed

theorem file_responses_finalize_witness:
  "\<exists>r. finalize_response list_http
     (simple_response list_http 405 [(''allow'', ''GET, HEAD'')] ''Method Not Allowed'' ::
        ((string \<times> string) list, string file_stream) server_response)
     \<lparr> rs_method = ''POST'', rs_version = HTTP_2 \<rparr> = Inr r \<and> rsp_status r = 405"
proof -
  let ?fops = "\<lparr> fo_metadata = (\<lambda>f. None), fo_seek = (\<lambda>f k. None), fo_read_exact = (\<lambda>f k. None) \<rparr> :: string file_ops"
  let ?svc = "\<lparr> fs_roots = Map.empty, fs_permits = 1, fs_chunk_bytes = 2 \<rparr> :: string list file_service"
  have s: "serve list_http decimal_date (undefined :: (string list, string) cap_fs) ?fops None ?svc (native_plan ''a'' ''b'' True None) ''POST'' [] =
      (simple_response list_http 405 [(''allow'', ''GET, HEAD'')] ''Method Not Allowed'', None, ?svc)"
    by (simp add: serve_def)
  from file_responses_finalize [OF list_http.http_laws_axioms _ s, of HTTP_2] show ?thesis
    by (simp add: simple_response_def)
qed

end
