(* ===== verification/File_Stream.thy ===== *)
theory File_Stream
  imports File_Server
begin

text \<open>
  The streaming of a prepared file in \<open>src/src/file_server.rs\<close>: the copy loop, the chunk
  writer behind a content encoder, and the response body.  The specification of both paths is
  the content cut at the chunk size.
\<close>

section \<open>The copy loop and the chunk writer\<close>

datatype io_error = Read_Error | Broken_Pipe

text \<open>
  The loop of \<open>copy_file\<close> does not end when the chunk size is zero, hence a partial function
  whose value is \<open>None\<close> when it does not return.
\<close>

partial_function (option) copy_file ::
  "('f \<Rightarrow> nat \<Rightarrow> ('f \<times> string) option) \<Rightarrow> (string \<Rightarrow> 's \<Rightarrow> io_error + 's) \<Rightarrow> nat \<Rightarrow> nat \<Rightarrow> 'f \<Rightarrow> 's \<Rightarrow>
     ((io_error + unit) \<times> 'f \<times> 's) option" where
  "copy_file read_exact consume chunk_bytes remaining file s =
     (if remaining = 0 then Some (Inr (), file, s)
      else (case read_exact file (min remaining chunk_bytes) of
              None \<Rightarrow> Some (Inl Read_Error, file, s)
            | Some (file', buffer) \<Rightarrow>
                (case consume buffer s of
                   Inl e \<Rightarrow> Some (Inl e, file', s)
                 | Inr s' \<Rightarrow>
                     copy_file read_exact consume chunk_bytes (remaining - min remaining chunk_bytes) file' s')))"

text \<open>The channel to the body: what was sent, and how many more chunks its receiver will take.\<close>

record chunk_channel =
  cc_sent :: "string list"
  cc_room :: "nat option"

definition blocking_send :: "string \<Rightarrow> chunk_channel \<Rightarrow> io_error + chunk_channel" where
  "blocking_send bytes ch =
     (case cc_room ch of
        Some 0 \<Rightarrow> Inl Broken_Pipe
      | Some (Suc n) \<Rightarrow> Inr (ch\<lparr> cc_sent := cc_sent ch @ [bytes], cc_room := Some n \<rparr>)
      | None \<Rightarrow> Inr (ch\<lparr> cc_sent := cc_sent ch @ [bytes] \<rparr>))"

record chunk_writer =
  cw_channel :: chunk_channel
  cw_buffer :: string
  cw_chunk_bytes :: nat

definition new_writer :: "chunk_channel \<Rightarrow> nat \<Rightarrow> chunk_writer" where
  "new_writer ch chunk_bytes = \<lparr> cw_channel = ch, cw_buffer = [], cw_chunk_bytes = chunk_bytes \<rparr>"

text \<open>The buffer is taken before the send, so it is empty also when the send fails.\<close>

definition send_buffer :: "chunk_writer \<Rightarrow> (io_error option) \<times> chunk_writer" where
  "send_buffer w =
     (if cw_buffer w = [] then (None, w)
      else (case blocking_send (cw_buffer w) (cw_channel w) of
              Inl e \<Rightarrow> (Some e, w\<lparr> cw_buffer := [] \<rparr>)
            | Inr ch \<Rightarrow> (None, w\<lparr> cw_buffer := [], cw_channel := ch \<rparr>)))"

partial_function (option) write_loop :: "string \<Rightarrow> chunk_writer \<Rightarrow> (io_error option \<times> chunk_writer) option" where
  "write_loop bytes w =
     (if bytes = [] then Some (None, w)
      else (let take_n = min (cw_chunk_bytes w - length (cw_buffer w)) (length bytes);
                w' = w\<lparr> cw_buffer := cw_buffer w @ take take_n bytes \<rparr> in
            if length (cw_buffer w') = cw_chunk_bytes w' then
              (case send_buffer w' of
                 (Some e, w'') \<Rightarrow> Some (Some e, w'')
               | (None, w'') \<Rightarrow> write_loop (drop take_n bytes) w'')
            else write_loop (drop take_n bytes) w'))"

definition finish_writer :: "chunk_writer \<Rightarrow> io_error option \<times> chunk_writer" where
  "finish_writer w = send_buffer w"

text \<open>The body that the connection polls; \<open>fb_lease\<close> is whether it still holds its transfer lease.\<close>

record file_body =
  fb_remaining :: "nat option"
  fb_lease :: bool

datatype body_poll = Poll_Data string | Poll_Error io_error | Poll_End | Poll_Pending

definition poll_file_body :: "body_poll \<Rightarrow> file_body \<Rightarrow> file_body" where
  "poll_file_body received b =
     (case received of
        Poll_Data bytes \<Rightarrow> b\<lparr> fb_remaining := map_option (\<lambda>r. r - length bytes) (fb_remaining b) \<rparr>
      | Poll_Error _ \<Rightarrow> b\<lparr> fb_lease := False \<rparr>
      | Poll_End \<Rightarrow> b\<lparr> fb_lease := False \<rparr>
      | Poll_Pending \<Rightarrow> b)"

definition file_body_end_stream :: "file_body \<Rightarrow> bool" where
  "file_body_end_stream b = (fb_remaining b = Some 0)"

section \<open>Chunks\<close>

text \<open>The specification of the stream: the content cut into pieces of the chunk size.\<close>

fun chunks_of :: "nat \<Rightarrow> string \<Rightarrow> string list" where
  "chunks_of n xs = (if n = 0 \<or> xs = [] then [] else take n xs # chunks_of n (drop n xs))"

fun full_chunks :: "nat \<Rightarrow> string \<Rightarrow> string list \<times> string" where
  "full_chunks n xs =
     (if n = 0 \<or> length xs < n then ([], xs)
      else (let (cs, r) = full_chunks n (drop n xs) in (take n xs # cs, r)))"

declare chunks_of.simps [simp del] full_chunks.simps [simp del]

definition flush_rest :: "string list \<times> string \<Rightarrow> string list" where
  "flush_rest p = fst p @ (if snd p = [] then [] else [snd p])"

lemma full_chunks_short: "length xs < n \<Longrightarrow> full_chunks n xs = ([], xs)"
  by (subst full_chunks.simps) simp

lemma full_chunks_long:
  "0 < n \<Longrightarrow> n \<le> length xs \<Longrightarrow>
     full_chunks n xs = (take n xs # fst (full_chunks n (drop n xs)), snd (full_chunks n (drop n xs)))"
  by (subst full_chunks.simps) (simp add: Let_def split: prod.split)

lemma full_chunks_rest: "0 < n \<Longrightarrow> length (snd (full_chunks n xs)) < n"
proof (induction n xs rule: full_chunks.induct)
  case (1 n xs)
  then show ?case
    by (cases "length xs < n") (simp_all add: full_chunks_short full_chunks_long)
qed

lemma full_chunks_append:
  "0 < n \<Longrightarrow> full_chunks n (xs @ ys) =
     (fst (full_chunks n xs) @ fst (full_chunks n (snd (full_chunks n xs) @ ys)),
      snd (full_chunks n (snd (full_chunks n xs) @ ys)))"
proof (induction n xs rule: full_chunks.induct)
  case (1 n xs)
  then show ?case
    by (cases "length xs < n") (simp_all add: full_chunks_short full_chunks_long)
qed

lemma chunks_of_Nil [simp]: "chunks_of n [] = []"
  by (subst chunks_of.simps) simp

lemma chunks_of_Cons: "0 < n \<Longrightarrow> xs \<noteq> [] \<Longrightarrow> chunks_of n xs = take n xs # chunks_of n (drop n xs)"
  by (subst chunks_of.simps) simp

lemma flush_full_chunks: "0 < n \<Longrightarrow> flush_rest (full_chunks n xs) = chunks_of n xs"
proof (induction n xs rule: full_chunks.induct)
  case (1 n xs)
  show ?case
  proof (cases "length xs < n")
    case True
    then show ?thesis using 1(2)
      by (cases "xs = []") (simp_all add: full_chunks_short flush_rest_def chunks_of_Cons)
  next
    case False
    with 1 have "flush_rest (full_chunks n (drop n xs)) = chunks_of n (drop n xs)" by simp
    moreover have "xs \<noteq> []" using False 1(2) by auto
    ultimately show ?thesis using False 1(2) by (simp add: full_chunks_long flush_rest_def chunks_of_Cons split: if_splits)
  qed
qed

lemma concat_chunks_of: "0 < n \<Longrightarrow> concat (chunks_of n xs) = xs"
proof (induction n xs rule: chunks_of.induct)
  case (1 n xs)
  then show ?case by (cases "xs = []") (simp_all add: chunks_of_Cons)
qed

lemma chunks_of_length: "c \<in> set (chunks_of n xs) \<Longrightarrow> 0 < length c \<and> length c \<le> n"
proof (induction n xs rule: chunks_of.induct)
  case (1 n xs)
  then show ?case by (cases "n = 0 \<or> xs = []") (auto simp: chunks_of_Cons chunks_of.simps [of 0])
qed

lemma chunks_of_take_step:
  "0 < n \<Longrightarrow> 0 < m \<Longrightarrow> min m n \<le> length xs \<Longrightarrow>
     chunks_of n (take m xs) = take (min m n) xs # chunks_of n (take (m - min m n) (drop (min m n) xs))"
  by (subst chunks_of.simps) (auto simp: min_def drop_take split: if_splits)

lemma send_buffer_open:
  "cc_room (cw_channel w) = None \<Longrightarrow>
     send_buffer w = (None, w\<lparr> cw_buffer := [], cw_channel := (cw_channel w)\<lparr> cc_sent :=
       cc_sent (cw_channel w) @ (if cw_buffer w = [] then [] else [cw_buffer w]) \<rparr> \<rparr>)"
  by (auto simp: send_buffer_def blocking_send_def)

text \<open>A write sends exactly the full chunks and keeps the rest in the buffer.\<close>

lemma write_loop_spec:
  assumes "0 < cw_chunk_bytes w" "length (cw_buffer w) < cw_chunk_bytes w" "cc_room (cw_channel w) = None"
  shows "write_loop bytes w = Some (None,
    w\<lparr> cw_buffer := snd (full_chunks (cw_chunk_bytes w) (cw_buffer w @ bytes)),
       cw_channel := (cw_channel w)\<lparr> cc_sent := cc_sent (cw_channel w) @
         fst (full_chunks (cw_chunk_bytes w) (cw_buffer w @ bytes)) \<rparr> \<rparr>)"
  using assms
proof (induction "length bytes" arbitrary: bytes w rule: less_induct)
  case less
  let ?n = "cw_chunk_bytes w"
  show ?case
  proof (cases "bytes = []")
    case True
    then show ?thesis using less.prems by (subst write_loop.simps) (simp add: full_chunks_short)
  next
    case False
    note ne = False
    show ?thesis
    proof (cases "length (cw_buffer w) + length bytes < ?n")
      case True
      let ?w = "w\<lparr> cw_buffer := cw_buffer w @ bytes \<rparr>"
      have "write_loop bytes w = write_loop [] ?w"
        using True ne by (subst write_loop.simps) (simp add: Let_def)
      also have "\<dots> = Some (None, ?w)" by (subst write_loop.simps) simp
      finally show ?thesis using True by (simp add: full_chunks_short)
    next
      case False
      let ?k = "?n - length (cw_buffer w)"
      have k: "min ?k (length bytes) = ?k" "?k > 0" using False less.prems by auto
      let ?w = "w\<lparr> cw_buffer := [], cw_channel := (cw_channel w)\<lparr> cc_sent :=
        cc_sent (cw_channel w) @ [cw_buffer w @ take ?k bytes] \<rparr> \<rparr>"
      have "write_loop bytes w = write_loop (drop ?k bytes) ?w"
        using False ne k less.prems by (subst write_loop.simps) (simp add: Let_def send_buffer_open)
      also have "\<dots> = Some (None,
          ?w\<lparr> cw_buffer := snd (full_chunks ?n (drop ?k bytes)),
             cw_channel := (cw_channel ?w)\<lparr> cc_sent := cc_sent (cw_channel ?w) @
               fst (full_chunks ?n (drop ?k bytes)) \<rparr> \<rparr>)"
        using less.hyps [of "drop ?k bytes" ?w] k ne less.prems by simp
      moreover have "full_chunks ?n (cw_buffer w @ bytes) =
          ((cw_buffer w @ take ?k bytes) # fst (full_chunks ?n (drop ?k bytes)), snd (full_chunks ?n (drop ?k bytes)))"
        using False less.prems by (simp add: full_chunks_long)
      ultimately show ?thesis by simp
    qed
  qed
qed

fun write_all :: "string list \<Rightarrow> chunk_writer \<Rightarrow> (io_error option \<times> chunk_writer) option" where
  "write_all [] w = Some (None, w)"
| "write_all (bytes # rest) w =
     (case write_loop bytes w of
        None \<Rightarrow> None
      | Some (Some e, w') \<Rightarrow> Some (Some e, w')
      | Some (None, w') \<Rightarrow> write_all rest w')"

lemma write_all_spec:
  assumes "0 < cw_chunk_bytes w" "length (cw_buffer w) < cw_chunk_bytes w" "cc_room (cw_channel w) = None"
  shows "write_all ws w = Some (None,
    w\<lparr> cw_buffer := snd (full_chunks (cw_chunk_bytes w) (cw_buffer w @ concat ws)),
       cw_channel := (cw_channel w)\<lparr> cc_sent := cc_sent (cw_channel w) @
         fst (full_chunks (cw_chunk_bytes w) (cw_buffer w @ concat ws)) \<rparr> \<rparr>)"
  using assms
proof (induction ws arbitrary: w)
  case Nil
  then show ?case by (simp add: full_chunks_short)
next
  case (Cons b ws)
  let ?p = "full_chunks (cw_chunk_bytes w) (cw_buffer w @ b)"
  let ?w = "w\<lparr> cw_buffer := snd ?p, cw_channel := (cw_channel w)\<lparr> cc_sent := cc_sent (cw_channel w) @ fst ?p \<rparr> \<rparr>"
  have "write_loop b w = Some (None, ?w)" by (rule write_loop_spec [OF Cons.prems])
  moreover have "write_all ws ?w = Some (None,
      ?w\<lparr> cw_buffer := snd (full_chunks (cw_chunk_bytes w) (snd ?p @ concat ws)),
         cw_channel := (cw_channel ?w)\<lparr> cc_sent := cc_sent (cw_channel ?w) @
           fst (full_chunks (cw_chunk_bytes w) (snd ?p @ concat ws)) \<rparr> \<rparr>)"
    using Cons.IH [of ?w] Cons.prems full_chunks_rest by simp
  ultimately show ?case
    using full_chunks_append [OF Cons.prems(1), of "cw_buffer w @ b" "concat ws"] by simp
qed

lemma copy_file_step:
  "remaining > 0 \<Longrightarrow> read file (min remaining n) = Some (file', b) \<Longrightarrow> consume b s = Inr s' \<Longrightarrow>
     copy_file read consume n remaining file s =
       copy_file read consume n (remaining - min remaining n) file' s'"
  by (subst copy_file.simps) simp

lemma copy_file_spec:
  assumes n: "0 < n"
    and law: "\<And>f k f' b. read f k = Some (f', b) \<Longrightarrow> k \<le> length (bytes_of f) \<and> b = take k (bytes_of f) \<and>
      bytes_of f' = drop k (bytes_of f)"
  shows "\<exists>res f' ch' cs rest. copy_file read blocking_send n remaining f ch = Some (res, f', ch') \<and>
    cc_sent ch' = cc_sent ch @ cs \<and> cs @ rest = chunks_of n (take remaining (bytes_of f)) \<and>
    (res = Inr () \<longrightarrow> rest = [] \<and> remaining \<le> length (bytes_of f))"
proof (induction remaining arbitrary: f ch rule: less_induct)
  case (less remaining)
  show ?case
  proof (cases "remaining = 0")
    case True
    then show ?thesis by (subst copy_file.simps) (simp add: chunks_of.simps)
  next
    case False
    let ?m = "min remaining n"
    show ?thesis
    proof (cases "read f ?m")
      case None
      then show ?thesis using False by (subst copy_file.simps) auto
    next
      case (Some p)
      obtain f' b where p: "read f ?m = Some (f', b)" using Some by (cases p) auto
      note l = law [OF p]
      show ?thesis
      proof (cases "blocking_send b ch")
        case (Inl e)
        then show ?thesis using False p by (subst copy_file.simps) auto
      next
        case (Inr ch')
        then have sent: "cc_sent ch' = cc_sent ch @ [b]"
          by (auto simp: blocking_send_def split: option.splits nat.splits)
        from less.IH [of "remaining - ?m" f' ch'] False n obtain res f'' ch'' cs rest where
          IH: "copy_file read blocking_send n (remaining - ?m) f' ch' = Some (res, f'', ch'')"
          "cc_sent ch'' = cc_sent ch' @ cs" "cs @ rest = chunks_of n (take (remaining - ?m) (bytes_of f'))"
          "res = Inr () \<longrightarrow> rest = [] \<and> remaining - ?m \<le> length (bytes_of f')" by auto
        have "copy_file read blocking_send n remaining f ch = Some (res, f'', ch'')"
          using copy_file_step [of remaining read f n f' b blocking_send ch ch'] False p Inr IH(1) by simp
        moreover have "cc_sent ch'' = cc_sent ch @ (b # cs)" using IH(2) sent by simp
        moreover have "(b # cs) @ rest = chunks_of n (take remaining (bytes_of f))"
          using chunks_of_take_step [OF n, of remaining "bytes_of f"] False l IH(3) by simp
        moreover have "res = Inr () \<longrightarrow> rest = [] \<and> remaining \<le> length (bytes_of f)" using IH(4) l by auto
        ultimately show ?thesis by blast
      qed
    qed
  qed
qed

section \<open>Properties\<close>

text \<open>C4: streaming a file ends and sends the file.  With the non-zero chunk size that activation
  requires, the copy loop returns; the chunks it has sent are the first pieces of the selected
  bytes cut at the chunk size, and all of them when it reports success.\<close>

theorem copy_file_terminates_exact:
  assumes "activate_service A specs max_concurrent n = Inr svc"
    and "\<And>f k f' b. read f k = Some (f', b) \<Longrightarrow> k \<le> length (bytes_of f) \<and> b = take k (bytes_of f) \<and>
      bytes_of f' = drop k (bytes_of f)"
  shows "\<exists>res f' ch' cs rest.
    copy_file read blocking_send (fs_chunk_bytes svc) remaining f ch = Some (res, f', ch') \<and>
    cc_sent ch' = cc_sent ch @ cs \<and>
    cs @ rest = chunks_of (fs_chunk_bytes svc) (take remaining (bytes_of f)) \<and>
    (\<forall>c\<in>set cs. 0 < length c \<and> length c \<le> fs_chunk_bytes svc) \<and>
    (res = Inr () \<longrightarrow> concat cs = take remaining (bytes_of f) \<and> remaining \<le> length (bytes_of f))"
proof -
  have n: "0 < fs_chunk_bytes svc"
    using assms(1) by (auto simp: activate_service_def split: if_splits)
  from copy_file_spec [OF n, of read bytes_of remaining f ch] assms(2) obtain res f' ch' cs rest where
    c: "copy_file read blocking_send (fs_chunk_bytes svc) remaining f ch = Some (res, f', ch')"
    "cc_sent ch' = cc_sent ch @ cs" "cs @ rest = chunks_of (fs_chunk_bytes svc) (take remaining (bytes_of f))"
    "res = Inr () \<longrightarrow> rest = [] \<and> remaining \<le> length (bytes_of f)" by blast
  moreover have "\<forall>c\<in>set cs. 0 < length c \<and> length c \<le> fs_chunk_bytes svc"
    using c(3) chunks_of_length by (metis Un_iff set_append)
  moreover have "concat cs = take remaining (bytes_of f)" if "res = Inr ()"
    using c(3,4) that concat_chunks_of [OF n] by (metis append_Nil2)
  ultimately show ?thesis by blast
qed

definition string_read :: "string \<Rightarrow> nat \<Rightarrow> (string \<times> string) option" where
  "string_read f k = (if k \<le> length f then Some (drop k f, take k f) else None)"

definition sample_ambient :: "string ambient_fs" where
  "sample_ambient = \<lparr> af_open_ambient_dir = Some, af_is_dir = (\<lambda>d. Some True) \<rparr>"

theorem copy_file_terminates_exact_witness:
  "\<exists>res f' ch'. copy_file string_read blocking_send 2 3 ''abcde'' \<lparr> cc_sent = [], cc_room = None \<rparr> =
     Some (res, f', ch')"
proof -
  have a: "activate_service sample_ambient [] 1 2 =
      Inr \<lparr> fs_roots = Map.empty, fs_permits = 1, fs_chunk_bytes = 2 \<rparr>"
    by (simp add: activate_service_def MAX_FILE_ROOTS_def)
  have "string_read f k = Some (f', b) \<Longrightarrow> k \<le> length f \<and> b = take k f \<and> f' = drop k f" for f k f' b
    by (auto simp: string_read_def split: if_splits)
  from copy_file_terminates_exact [where read = string_read and bytes_of = "\<lambda>f. f" and remaining = 3 and
      f = "''abcde''" and ch = "\<lparr> cc_sent = [], cc_room = None \<rparr>", OF a this]
  show ?thesis by auto
qed

text \<open>C34: the chunk writer refines plain chunking.  Whatever pieces a content encoder writes, after
  \<open>finish\<close> the channel has received exactly the concatenation of the pieces cut at the chunk
  size, independently of the boundaries of the writes.\<close>

theorem chunk_writer_refines_chunking:
  assumes "0 < n" "cc_room ch = None"
  shows "\<exists>w. write_all ws (new_writer ch n) = Some (None, w) \<and>
    fst (finish_writer w) = None \<and>
    cc_sent (cw_channel (snd (finish_writer w))) = cc_sent ch @ chunks_of n (concat ws)"
proof -
  let ?w = "(new_writer ch n)\<lparr> cw_buffer := snd (full_chunks n (concat ws)),
    cw_channel := ch\<lparr> cc_sent := cc_sent ch @ fst (full_chunks n (concat ws)) \<rparr> \<rparr>"
  have "write_all ws (new_writer ch n) = Some (None, ?w)"
    using write_all_spec [of "new_writer ch n" ws] assms by (simp add: new_writer_def)
  moreover have "fst (finish_writer ?w) = None \<and>
      cc_sent (cw_channel (snd (finish_writer ?w))) = cc_sent ch @ chunks_of n (concat ws)"
    using flush_full_chunks [OF assms(1), of "concat ws", symmetric] assms(2)
    by (simp add: finish_writer_def send_buffer_open flush_rest_def new_writer_def)
  ultimately show ?thesis by blast
qed

theorem chunk_writer_refines_chunking_witness:
  "\<exists>w. write_all [''ab'', ''cde''] (new_writer \<lparr> cc_sent = [], cc_room = None \<rparr> 3) = Some (None, w)"
  using chunk_writer_refines_chunking [of 3 "\<lparr> cc_sent = [], cc_room = None \<rparr>" "[''ab'', ''cde'']"] by auto

end
