(* ===== verification/Host_Resource.thy ===== *)
theory Host_Resource
  imports Prelude
begin

text \<open>
  \<open>src/src/host_resource.rs\<close>: the finite heap of host resources behind Roc's opaque boxes,
  with the reference counting of \<open>src/src/roc_platform_abi.rs\<close> that Roc applies to them.
  Addresses are natural numbers; the slots lie at multiples of the stride from the start of the
  array.  \<open>None\<close> is a failing assertion.  Deallocation is two steps, because the resource is
  dropped between them without the lock.
\<close>

definition TOKEN_INDEX_BITS :: nat where
  "TOKEN_INDEX_BITS = 16"

definition TOKEN_INDEX_MASK :: "64 word" where
  "TOKEN_INDEX_MASK = push_bit TOKEN_INDEX_BITS 1 - 1"

definition MAX_GENERATION :: "64 word" where
  "MAX_GENERATION = drop_bit TOKEN_INDEX_BITS (- 1)"

text \<open>
  \<open>Lookup_Uninit\<close> and \<open>Uninit_Read\<close> are not values of the code: they mark the branches in
  which an uninitialised resource would be read.
\<close>

datatype lookup_error = Lookup_Invalid | Lookup_Stale | Lookup_Uninit

datatype dealloc_route = NotOwned | Deallocated | Corrupt | Uninit_Read

datatype slot_state = Free | Reserved | Live | Closing | Retired

record 'a resource_slot =
  sl_refcount :: int
  sl_token :: "64 word"
  sl_resource :: "'a option"

record heap_state =
  hs_free :: "nat list"
  hs_generations :: "64 word list"
  hs_slots :: "slot_state list"
  hs_active :: nat
  hs_high_water :: nat

record 'a host_heap =
  hh_slots :: "'a resource_slot list"
  hh_state :: heap_state
  hh_start :: nat
  hh_stride :: nat

text \<open>Where the token lies in a slot: directly after the reference count.\<close>

definition TOKEN_OFFSET :: nat where
  "TOKEN_OFFSET = 8"

section \<open>Tokens\<close>

definition encode_token :: "nat \<Rightarrow> 64 word \<Rightarrow> 64 word" where
  "encode_token index generation =
     Bit_Operations.or (push_bit TOKEN_INDEX_BITS generation) (word_of_nat index + 1)"

definition decode_token :: "64 word \<Rightarrow> (nat \<times> 64 word) option" where
  "decode_token token =
     (let encoded_index = Bit_Operations.and token TOKEN_INDEX_MASK;
          generation = drop_bit TOKEN_INDEX_BITS token in
      if encoded_index = 0 \<or> generation = 0 then None
      else Some (unat encoded_index - 1, generation))"

section \<open>Addresses\<close>

definition index_for_base :: "'a host_heap \<Rightarrow> nat \<Rightarrow> nat option" where
  "index_for_base H address =
     (if address < hh_start H then None
      else (let offset = address - hh_start H in
            if offset mod hh_stride H \<noteq> 0 then None
            else if offset div hh_stride H < length (hh_slots H) then Some (offset div hh_stride H)
            else None))"

definition token_address :: "'a host_heap \<Rightarrow> nat \<Rightarrow> nat" where
  "token_address H index = hh_start H + index * hh_stride H + TOKEN_OFFSET"

definition payload_index :: "'a host_heap \<Rightarrow> nat \<Rightarrow> nat option" where
  "payload_index H handle =
     (if handle = 0 then None
      else if handle < TOKEN_OFFSET then None
      else (case index_for_base H (handle - TOKEN_OFFSET) of
              None \<Rightarrow> None
            | Some index \<Rightarrow> if token_address H index = handle then Some index else None))"

definition contains_address :: "'a host_heap \<Rightarrow> nat \<Rightarrow> bool" where
  "contains_address H address =
     (hh_start H \<le> address \<and> address < hh_start H + length (hh_slots H) * hh_stride H)"

section \<open>Operations\<close>

definition new_heap :: "nat \<Rightarrow> nat \<Rightarrow> nat \<Rightarrow> 'a host_heap option" where
  "new_heap capacity start stride =
     (if capacity = 0 \<or> capacity > unat TOKEN_INDEX_MASK then None
      else Some \<lparr> hh_slots = replicate capacity \<lparr> sl_refcount = 0, sl_token = 0, sl_resource = None \<rparr>,
             hh_state = \<lparr> hs_free = rev [0..<capacity], hs_generations = replicate capacity 0,
               hs_slots = replicate capacity Free, hs_active = 0, hs_high_water = 0 \<rparr>,
             hh_start = start, hh_stride = stride \<rparr>)"

text \<open>
  \<open>Vec::pop\<close> takes the last element: the loop of \<open>reserve\<close> runs over the reversed free
  list.  A slot whose generations are used up is retired.
\<close>

definition saturating_inc :: "64 word \<Rightarrow> 64 word" where
  "saturating_inc g = (if g = - 1 then - 1 else g + 1)"

fun reserve_loop :: "nat list \<Rightarrow> heap_state \<Rightarrow> (nat \<times> 64 word) option \<times> heap_state" where
  "reserve_loop [] s = (None, s\<lparr> hs_free := [] \<rparr>)"
| "reserve_loop (index # rest) s =
     (let generation = saturating_inc (hs_generations s ! index) in
      if generation = 0 \<or> generation > MAX_GENERATION then
        reserve_loop rest (s\<lparr> hs_slots := (hs_slots s)[index := Retired] \<rparr>)
      else
        (Some (index, generation),
         s\<lparr> hs_free := rev rest,
            hs_generations := (hs_generations s)[index := generation],
            hs_slots := (hs_slots s)[index := Reserved],
            hs_active := hs_active s + 1,
            hs_high_water := max (hs_high_water s) (hs_active s + 1) \<rparr>))"

definition reserve :: "'a host_heap \<Rightarrow> (nat \<times> 64 word) option \<times> 'a host_heap" where
  "reserve H = (case reserve_loop (rev (hs_free (hh_state H))) (hh_state H) of
     (r, s) \<Rightarrow> (r, H\<lparr> hh_state := s \<rparr>))"

definition commit ::
  "nat \<Rightarrow> 64 word \<Rightarrow> 'a \<Rightarrow> 'a host_heap \<Rightarrow> (nat \<times> 'a host_heap) option" where
  "commit index generation resource H =
     (let s = hh_state H in
      if hs_slots s ! index \<noteq> Reserved \<or> hs_generations s ! index \<noteq> generation then None
      else Some (token_address H index,
             H\<lparr> hh_slots := (hh_slots H)[index := \<lparr> sl_refcount = 1,
                  sl_token = encode_token index generation, sl_resource = Some resource \<rparr>],
                hh_state := s\<lparr> hs_slots := (hs_slots s)[index := Live] \<rparr> \<rparr>))"

definition cancel_reservation :: "nat \<Rightarrow> 64 word \<Rightarrow> 'a host_heap \<Rightarrow> 'a host_heap" where
  "cancel_reservation index generation H =
     (let s = hh_state H in
      if hs_slots s ! index = Reserved \<and> hs_generations s ! index = generation
      then H\<lparr> hh_state := s\<lparr> hs_slots := (hs_slots s)[index := Free],
               hs_active := hs_active s - 1, hs_free := hs_free s @ [index] \<rparr> \<rparr>
      else H)"

definition heap_get :: "'a host_heap \<Rightarrow> nat \<Rightarrow> lookup_error + 'a" where
  "heap_get H handle =
     (case payload_index H handle of
        None \<Rightarrow> Inl Lookup_Invalid
      | Some index \<Rightarrow>
          (let slot = hh_slots H ! index; s = hh_state H in
           if sl_refcount slot \<le> 0 then Inl Lookup_Stale
           else (case decode_token (sl_token slot) of
                   None \<Rightarrow> Inl Lookup_Stale
                 | Some (token_index, generation) \<Rightarrow>
                     if token_index \<noteq> index \<or> hs_slots s ! index \<noteq> Live \<or>
                        hs_generations s ! index \<noteq> generation
                     then Inl Lookup_Stale
                     else (case sl_resource slot of
                             None \<Rightarrow> Inl Lookup_Uninit
                           | Some r \<Rightarrow> Inr r))))"

definition ROC_DEBUG_REFCOUNT_POISON :: int where
  "ROC_DEBUG_REFCOUNT_POISON = 0xdeadbeefdeadbeef - 2 ^ 64"

definition is_finalized_roc_refcount :: "int \<Rightarrow> bool" where
  "is_finalized_roc_refcount v = (v = 0 \<or> v = ROC_DEBUG_REFCOUNT_POISON)"

text \<open>
  The first half of \<open>route_dealloc\<close>: a route that ends it, or the slot put into the closing
  state with the resource that is then dropped.
\<close>

definition dealloc_begin ::
  "nat \<Rightarrow> 'a host_heap \<Rightarrow> dealloc_route + (nat \<times> 64 word \<times> 'a) \<times> 'a host_heap" where
  "dealloc_begin ptr H =
     (case index_for_base H ptr of
        None \<Rightarrow> Inl (if contains_address H ptr then Corrupt else NotOwned)
      | Some index \<Rightarrow>
          (let slot = hh_slots H ! index; s = hh_state H in
           if hs_slots s ! index \<noteq> Live \<or> \<not> is_finalized_roc_refcount (sl_refcount slot)
           then Inl Corrupt
           else (case decode_token (sl_token slot) of
                   None \<Rightarrow> Inl Corrupt
                 | Some (token_index, generation) \<Rightarrow>
                     if token_index \<noteq> index \<or> hs_generations s ! index \<noteq> generation
                     then Inl Corrupt
                     else (case sl_resource slot of
                             None \<Rightarrow> Inl Uninit_Read
                           | Some r \<Rightarrow>
                               Inr ((index, generation, r),
                                 H\<lparr> hh_slots := (hh_slots H)[index := slot\<lparr> sl_resource := None \<rparr>],
                                    hh_state := s\<lparr> hs_slots := (hs_slots s)[index := Closing] \<rparr> \<rparr>)))))"

definition dealloc_finish :: "nat \<Rightarrow> 64 word \<Rightarrow> 'a host_heap \<Rightarrow> 'a host_heap option" where
  "dealloc_finish index generation H =
     (let s = hh_state H in
      if hs_slots s ! index \<noteq> Closing \<or> hs_generations s ! index \<noteq> generation then None
      else Some (H\<lparr> hh_state := s\<lparr> hs_slots := (hs_slots s)[index := Free],
             hs_active := hs_active s - 1, hs_free := hs_free s @ [index] \<rparr> \<rparr>))"

definition drop_heap :: "'a host_heap \<Rightarrow> 'a list \<times> 'a host_heap" where
  "drop_heap H =
     (let live = filter (\<lambda>i. hs_slots (hh_state H) ! i = Live) [0..<length (hs_slots (hh_state H))] in
      (map (\<lambda>i. the (sl_resource (hh_slots H ! i))) live,
       H\<lparr> hh_state := (hh_state H)\<lparr> hs_slots :=
            map (\<lambda>st. if st = Live then Free else st) (hs_slots (hh_state H)) \<rparr> \<rparr>))"

section \<open>Reference counting of Roc boxes\<close>

definition incref_box :: "nat \<Rightarrow> int \<Rightarrow> 'a host_heap \<Rightarrow> 'a host_heap" where
  "incref_box index amount H =
     (let slot = hh_slots H ! index in
      if sl_refcount slot = 0 then H
      else H\<lparr> hh_slots := (hh_slots H)[index := slot\<lparr> sl_refcount := sl_refcount slot + amount \<rparr>] \<rparr>)"

text \<open>The flag says that this release was the last, after which the box is deallocated.\<close>

definition decref_box :: "nat \<Rightarrow> 'a host_heap \<Rightarrow> bool \<times> 'a host_heap" where
  "decref_box index H =
     (let slot = hh_slots H ! index in
      if sl_refcount slot = 0 then (False, H)
      else (sl_refcount slot = 1,
            H\<lparr> hh_slots := (hh_slots H)[index := slot\<lparr> sl_refcount := sl_refcount slot - 1 \<rparr>] \<rparr>))"

section \<open>Interleavings\<close>

text \<open>
  The world adds what the callers hold: the uncommitted reservations, the slots whose last
  reference was released but whose deallocation has not begun, the deallocations between their
  two halves, and which resource was put into a live slot.
\<close>

record 'a heap_world =
  hw_heap :: "'a host_heap"
  hw_reserved :: "(nat \<times> 64 word) set"
  hw_released :: "nat set"
  hw_closing :: "(nat \<times> 64 word) set"
  hw_owner :: "nat \<Rightarrow> 'a option"

definition heap_start :: "'a host_heap \<Rightarrow> 'a heap_world" where
  "heap_start H = \<lparr> hw_heap = H, hw_reserved = {}, hw_released = {}, hw_closing = {}, hw_owner = Map.empty \<rparr>"

definition slot_base :: "'a host_heap \<Rightarrow> nat \<Rightarrow> nat" where
  "slot_base H index = hh_start H + index * hh_stride H"

inductive heap_step :: "'a heap_world \<Rightarrow> 'a heap_world \<Rightarrow> bool" where
  hp_reserve: "reserve (hw_heap w) = (Some (i, g), H) \<Longrightarrow>
    heap_step w (w\<lparr> hw_heap := H, hw_reserved := insert (i, g) (hw_reserved w) \<rparr>)"
| hp_reserve_full: "reserve (hw_heap w) = (None, H) \<Longrightarrow> heap_step w (w\<lparr> hw_heap := H \<rparr>)"
| hp_commit: "(i, g) \<in> hw_reserved w \<Longrightarrow> commit i g r (hw_heap w) = Some (handle, H) \<Longrightarrow>
    heap_step w (w\<lparr> hw_heap := H, hw_reserved := hw_reserved w - {(i, g)},
      hw_owner := (hw_owner w)(i \<mapsto> r) \<rparr>)"
| hp_cancel: "(i, g) \<in> hw_reserved w \<Longrightarrow>
    heap_step w (w\<lparr> hw_heap := cancel_reservation i g (hw_heap w),
      hw_reserved := hw_reserved w - {(i, g)} \<rparr>)"
| hp_incref: "i < length (hh_slots (hw_heap w)) \<Longrightarrow> sl_refcount (hh_slots (hw_heap w) ! i) > 0 \<Longrightarrow>
    amount > 0 \<Longrightarrow>
    heap_step w (w\<lparr> hw_heap := incref_box i amount (hw_heap w) \<rparr>)"
| hp_decref: "i < length (hh_slots (hw_heap w)) \<Longrightarrow> sl_refcount (hh_slots (hw_heap w) ! i) > 0 \<Longrightarrow>
    decref_box i (hw_heap w) = (last_one, H) \<Longrightarrow>
    heap_step w (w\<lparr> hw_heap := H,
      hw_released := (if last_one then insert i (hw_released w) else hw_released w) \<rparr>)"
| hp_dealloc: "i \<in> hw_released w \<Longrightarrow>
    dealloc_begin (slot_base (hw_heap w) i) (hw_heap w) = Inr ((i, g, r), H) \<Longrightarrow>
    heap_step w (w\<lparr> hw_heap := H, hw_released := hw_released w - {i},
      hw_closing := insert (i, g) (hw_closing w), hw_owner := (hw_owner w)(i := None) \<rparr>)"
| hp_finish: "(i, g) \<in> hw_closing w \<Longrightarrow> dealloc_finish i g (hw_heap w) = Some H \<Longrightarrow>
    heap_step w (w\<lparr> hw_heap := H, hw_closing := hw_closing w - {(i, g)} \<rparr>)"

definition in_use :: "slot_state \<Rightarrow> bool" where
  "in_use st = (st \<in> {Reserved, Live, Closing})"

definition slot_ok :: "'a heap_world \<Rightarrow> nat \<Rightarrow> bool" where
  "slot_ok w i =
     (let H = hw_heap w; st = hs_slots (hh_state H) ! i; g = hs_generations (hh_state H) ! i;
          slot = hh_slots H ! i in
      g \<le> MAX_GENERATION \<and>
      (i \<in> set (hs_free (hh_state H)) \<longleftrightarrow> st = Free) \<and>
      (\<forall>g'. (i, g') \<in> hw_reserved w \<longleftrightarrow> st = Reserved \<and> g' = g) \<and>
      (i \<in> hw_released w \<longleftrightarrow> st = Live \<and> sl_refcount slot = 0) \<and>
      (\<forall>g'. (i, g') \<in> hw_closing w \<longleftrightarrow> st = Closing \<and> g' = g) \<and>
      (in_use st \<longrightarrow> g \<noteq> 0) \<and>
      (st = Live \<longrightarrow> sl_refcount slot \<ge> 0 \<and> sl_token slot = encode_token i g \<and>
         sl_resource slot \<noteq> None \<and> sl_resource slot = hw_owner w i) \<and>
      (st \<noteq> Live \<longrightarrow> sl_refcount slot = 0))"

definition heap_shape :: "'a heap_world \<Rightarrow> bool" where
  "heap_shape w =
     (let H = hw_heap w; n = length (hh_slots H) in
      length (hs_slots (hh_state H)) = n \<and> length (hs_generations (hh_state H)) = n \<and>
      n \<le> unat TOKEN_INDEX_MASK \<and> hh_stride H > TOKEN_OFFSET \<and>
      distinct (hs_free (hh_state H)) \<and> set (hs_free (hh_state H)) \<subseteq> {..<n} \<and>
      fst ` hw_reserved w \<subseteq> {..<n} \<and> hw_released w \<subseteq> {..<n} \<and> fst ` hw_closing w \<subseteq> {..<n} \<and>
      hs_active (hh_state H) = length (filter in_use (hs_slots (hh_state H))) \<and>
      hs_active (hh_state H) \<le> hs_high_water (hh_state H) \<and> hs_high_water (hh_state H) \<le> n)"

definition heap_world_ok :: "'a heap_world \<Rightarrow> bool" where
  "heap_world_ok w = (heap_shape w \<and> (\<forall>i<length (hh_slots (hw_heap w)). slot_ok w i))"

section \<open>Lemmas\<close>

lemma token_mask: "TOKEN_INDEX_MASK = mask 16"
  by (simp add: TOKEN_INDEX_MASK_def TOKEN_INDEX_BITS_def mask_eq_decr_exp push_bit_eq_mult)

lemma unat_token_mask: "unat TOKEN_INDEX_MASK = 65535"
  by (simp add: TOKEN_INDEX_MASK_def TOKEN_INDEX_BITS_def push_bit_eq_mult)

lemma max_generation: "unat MAX_GENERATION = 2 ^ 48 - 1"
  by (simp add: MAX_GENERATION_def TOKEN_INDEX_BITS_def mask_eq_exp_minus_1) 

lemma small_take_bit: "unat (w :: 64 word) < 2 ^ n \<Longrightarrow> take_bit n w = w"
  by (simp add: word_unat_eq_iff unsigned_take_bit_eq take_bit_nat_eq_self_iff)

lemma small_drop_bit: "unat (w :: 64 word) < 2 ^ n \<Longrightarrow> drop_bit n w = 0"
  using small_take_bit take_bit_eq_self_iff_drop_bit_eq_0 by blast

lemma push_drop_bit: "unat (g :: 64 word) < 2 ^ 48 \<Longrightarrow> drop_bit 16 (push_bit 16 g) = g"
proof -
  assume "unat g < 2 ^ 48"
  then have "take_bit 48 g = g" by (rule small_take_bit)
  moreover have "drop_bit 16 (push_bit 16 g) = take_bit 48 g"
    by (rule bit_word_eqI) (auto simp: bit_simps)
  ultimately show ?thesis by simp
qed

lemma decode_encode:
  assumes "index < 65535" "g \<noteq> 0" "g \<le> MAX_GENERATION"
  shows "decode_token (encode_token index g) = Some (index, g)"
proof -
  let ?w = "word_of_nat index + 1 :: 64 word"
  have w: "unat ?w = index + 1"
  proof -
    have "unat (word_of_nat (index + 1) :: 64 word) = index + 1"
      by (rule unat_word_of_nat_small) (use assms(1) in simp)
    moreover have "?w = word_of_nat (index + 1)" by simp
    ultimately show ?thesis by metis
  qed
  have g: "unat g < 2 ^ 48" using assms(3) max_generation by (simp add: word_le_nat_alt)
  have "take_bit 16 (encode_token index g) = ?w"
    using w assms(1) by (simp add: encode_token_def TOKEN_INDEX_BITS_def small_take_bit take_bit_push_bit)
  moreover have "drop_bit 16 (encode_token index g) = g"
    using w assms(1) push_drop_bit [OF g] by (simp add: encode_token_def TOKEN_INDEX_BITS_def small_drop_bit)
  moreover have "?w \<noteq> 0" using w by (metis add_is_0 one_neq_zero unat_0)
  ultimately show ?thesis
    using w assms(2) by (simp add: decode_token_def Let_def token_mask TOKEN_INDEX_BITS_def take_bit_eq_mask [symmetric])
qed


lemma index_for_slot_base:
  "i < length (hh_slots H) \<Longrightarrow> hh_stride H > 0 \<Longrightarrow> index_for_base H (slot_base H i) = Some i"
  by (simp add: index_for_base_def slot_base_def Let_def)

lemma payload_index_token:
  "i < length (hh_slots H) \<Longrightarrow> hh_stride H > 0 \<Longrightarrow> payload_index H (token_address H i) = Some i"
  using index_for_slot_base [of i H]
  by (simp add: payload_index_def token_address_def slot_base_def TOKEN_OFFSET_def)

lemmas heap_ok_defs = heap_world_ok_def heap_shape_def slot_ok_def Let_def

lemma heap_world_okI:
  "heap_shape w \<Longrightarrow> (\<And>i. i < length (hh_slots (hw_heap w)) \<Longrightarrow> slot_ok w i) \<Longrightarrow> heap_world_ok w"
  by (simp add: heap_world_ok_def)

lemma new_heap_ok:
  assumes "new_heap n start stride = Some H" "stride > TOKEN_OFFSET"
  shows "heap_world_ok (heap_start H)"
  using assms
  by (auto simp: heap_ok_defs heap_start_def new_heap_def in_use_def unat_token_mask split: if_splits)

text \<open>Retiring a free slot whose generations are used up.\<close>

definition retire_slot :: "nat \<Rightarrow> heap_state \<Rightarrow> heap_state" where
  "retire_slot i s = s\<lparr> hs_free := butlast (hs_free s), hs_slots := (hs_slots s)[i := Retired] \<rparr>"

definition take_slot :: "nat \<Rightarrow> heap_state \<Rightarrow> heap_state" where
  "take_slot i s = s\<lparr> hs_free := butlast (hs_free s),
     hs_generations := (hs_generations s)[i := hs_generations s ! i + 1],
     hs_slots := (hs_slots s)[i := Reserved], hs_active := hs_active s + 1,
     hs_high_water := max (hs_high_water s) (hs_active s + 1) \<rparr>"

lemma last_in_use:
  assumes "heap_world_ok w" "hs_free (hh_state (hw_heap w)) \<noteq> []"
  shows "last (hs_free (hh_state (hw_heap w))) < length (hh_slots (hw_heap w))"
    "hs_slots (hh_state (hw_heap w)) ! last (hs_free (hh_state (hw_heap w))) = Free"
    "last (hs_free (hh_state (hw_heap w))) \<notin> set (butlast (hs_free (hh_state (hw_heap w))))"
    "set (hs_free (hh_state (hw_heap w))) =
      insert (last (hs_free (hh_state (hw_heap w)))) (set (butlast (hs_free (hh_state (hw_heap w)))))"
    "distinct (butlast (hs_free (hh_state (hw_heap w))))"
proof -
  let ?f = "hs_free (hh_state (hw_heap w))"
  have l: "last ?f \<in> set ?f" using assms(2) by simp
  show "last ?f < length (hh_slots (hw_heap w))"
    using assms(1) l by (auto simp: heap_world_ok_def heap_shape_def Let_def)
  then show "hs_slots (hh_state (hw_heap w)) ! last ?f = Free"
    using assms(1) l by (simp add: heap_world_ok_def slot_ok_def Let_def)
  have d: "distinct (butlast ?f @ [last ?f])"
    using assms by (simp add: heap_world_ok_def heap_shape_def Let_def)
  then show "last ?f \<notin> set (butlast ?f)" "distinct (butlast ?f)" by simp_all
  show "set ?f = insert (last ?f) (set (butlast ?f))"
    using assms(2) by (metis append_butlast_last_id list.simps(15) rotate1.simps(2) set_rotate1)
qed

lemma in_use_states [simp]:
  "in_use Reserved" "in_use Live" "in_use Closing" "\<not> in_use Free" "\<not> in_use Retired"
  by (simp_all add: in_use_def)

lemma active_count:
  "i < length sl \<Longrightarrow> \<not> in_use (sl ! i) \<Longrightarrow> in_use v \<Longrightarrow>
     length (filter in_use (sl[i := v])) = Suc (length (filter in_use sl))"
  "i < length sl \<Longrightarrow> in_use (sl ! i) \<Longrightarrow> in_use v \<Longrightarrow>
     length (filter in_use (sl[i := v])) = length (filter in_use sl)"
  "i < length sl \<Longrightarrow> \<not> in_use (sl ! i) \<Longrightarrow> \<not> in_use v \<Longrightarrow>
     length (filter in_use (sl[i := v])) = length (filter in_use sl)"
  "i < length sl \<Longrightarrow> in_use (sl ! i) \<Longrightarrow> \<not> in_use v \<Longrightarrow>
     Suc (length (filter in_use (sl[i := v]))) = length (filter in_use sl)"
  using filter_update [of i sl in_use v] by simp_all

lemma active_room:
  "i < length sl \<Longrightarrow> \<not> in_use (sl ! i) \<Longrightarrow> length (filter in_use sl) < length sl"
  by (metis length_filter_less nth_mem)

lemma retire_ok:
  assumes ok: "heap_world_ok w" and f: "hs_free (hh_state (hw_heap w)) \<noteq> []"
    and i: "i = last (hs_free (hh_state (hw_heap w)))"
  shows "heap_world_ok (w\<lparr> hw_heap := (hw_heap w)\<lparr> hh_state := retire_slot i (hh_state (hw_heap w)) \<rparr> \<rparr>)"
proof (rule heap_world_okI)
  note L = last_in_use [OF ok f, folded i]
  show "heap_shape (w\<lparr> hw_heap := (hw_heap w)\<lparr> hh_state := retire_slot i (hh_state (hw_heap w)) \<rparr> \<rparr>)"
    using ok L by (auto simp: heap_world_ok_def heap_shape_def Let_def retire_slot_def active_count dest: in_set_butlastD)
  fix k assume k: "k < length (hh_slots (hw_heap (w\<lparr> hw_heap := (hw_heap w)\<lparr> hh_state :=
    retire_slot i (hh_state (hw_heap w)) \<rparr> \<rparr>)))"
  then have "slot_ok w k" "slot_ok w i" "length (hs_slots (hh_state (hw_heap w))) = length (hh_slots (hw_heap w))"
    using ok L by (auto simp: heap_world_ok_def heap_shape_def Let_def)
  then show "slot_ok (w\<lparr> hw_heap := (hw_heap w)\<lparr> hh_state := retire_slot i (hh_state (hw_heap w)) \<rparr> \<rparr>) k"
    using L k by (cases "k = i") (auto simp: slot_ok_def Let_def retire_slot_def)
qed

lemma take_ok:
  assumes ok: "heap_world_ok w" and f: "hs_free (hh_state (hw_heap w)) \<noteq> []"
    and i: "i = last (hs_free (hh_state (hw_heap w)))"
    and g: "hs_generations (hh_state (hw_heap w)) ! i + 1 \<noteq> 0"
      "hs_generations (hh_state (hw_heap w)) ! i + 1 \<le> MAX_GENERATION"
  shows "heap_world_ok (w\<lparr> hw_heap := (hw_heap w)\<lparr> hh_state := take_slot i (hh_state (hw_heap w)) \<rparr>,
    hw_reserved := insert (i, hs_generations (hh_state (hw_heap w)) ! i + 1) (hw_reserved w) \<rparr>)"
    (is "heap_world_ok ?w")
proof (rule heap_world_okI)
  note L = last_in_use [OF ok f, folded i]
  have len: "length (hs_slots (hh_state (hw_heap w))) = length (hh_slots (hw_heap w))"
    "length (hs_generations (hh_state (hw_heap w))) = length (hh_slots (hw_heap w))"
    using ok by (auto simp: heap_world_ok_def heap_shape_def Let_def)
  show "heap_shape ?w"
    using ok L len active_room [of i "hs_slots (hh_state (hw_heap w))"]
    by (auto simp: heap_world_ok_def heap_shape_def Let_def take_slot_def active_count dest: in_set_butlastD)
  fix k assume k: "k < length (hh_slots (hw_heap ?w))"
  then have "slot_ok w k" "slot_ok w i" using ok L by (auto simp: heap_world_ok_def)
  then show "slot_ok ?w k"
    using L k len g by (cases "k = i") (auto simp: slot_ok_def Let_def take_slot_def)
qed


lemma heap_state_update_commute:
  "s\<lparr> hs_free := f, hs_slots := x \<rparr> = s\<lparr> hs_slots := x, hs_free := f \<rparr>" for s :: heap_state
  by (cases s) simp

lemma reserve_loop_free: "reserve_loop xs (s\<lparr> hs_free := f \<rparr>) = reserve_loop xs s"
proof (induction xs arbitrary: s)
  case (Cons i xs)
  from Cons.IH [of "s\<lparr> hs_slots := (hs_slots s)[i := Retired] \<rparr>"] show ?case
    by (simp add: Let_def heap_state_update_commute)
qed simp

lemma saturating_inc_usable:
  "\<not> (saturating_inc g = 0 \<or> saturating_inc g > MAX_GENERATION) \<Longrightarrow>
     saturating_inc g = g + 1 \<and> g + 1 \<noteq> 0 \<and> g + 1 \<le> MAX_GENERATION"
proof -
  have "MAX_GENERATION < - 1" by (simp add: word_less_nat_alt max_generation unsigned_minus_1_eq_mask mask_eq_exp_minus_1)
  then show "\<not> (saturating_inc g = 0 \<or> saturating_inc g > MAX_GENERATION) \<Longrightarrow> ?thesis"
    by (auto simp: saturating_inc_def split: if_splits)
qed

lemma reserve_ok:
  assumes "heap_world_ok w" "reserve (hw_heap w) = (r, H')"
  shows "heap_world_ok (w\<lparr> hw_heap := H', hw_reserved :=
    (case r of None \<Rightarrow> hw_reserved w | Some ig \<Rightarrow> insert ig (hw_reserved w)) \<rparr>)"
  using assms
proof (induction "length (hs_free (hh_state (hw_heap w)))" arbitrary: w)
  case 0
  then have "hs_free (hh_state (hw_heap w)) = []" by simp
  with "0.prems" have "r = None" "H' = hw_heap w"
    by (auto simp: reserve_def)
  with "0.prems" show ?case by simp
next
  case (Suc n)
  let ?s = "hh_state (hw_heap w)"
  obtain fs i where f: "hs_free ?s = fs @ [i]" using Suc.hyps(2) by (cases "hs_free ?s" rule: rev_cases) auto
  then have ne: "hs_free ?s \<noteq> []" and i: "i = last (hs_free ?s)" and b: "fs = butlast (hs_free ?s)" by auto
  let ?g = "saturating_inc (hs_generations ?s ! i)"
  show ?case
  proof (cases "?g = 0 \<or> ?g > MAX_GENERATION")
    case True
    let ?w = "w\<lparr> hw_heap := (hw_heap w)\<lparr> hh_state := retire_slot i ?s \<rparr> \<rparr>"
    have "reserve_loop (rev (hs_free ?s)) ?s = reserve_loop (rev fs) (?s\<lparr> hs_slots := (hs_slots ?s)[i := Retired] \<rparr>)"
      using True by (simp add: f Let_def)
    also have "\<dots> = reserve_loop (rev fs) (retire_slot i ?s)"
      unfolding retire_slot_def heap_state_update_commute reserve_loop_free ..
    finally have "reserve (hw_heap ?w) = (r, H')"
      using Suc.prems(2) by (simp add: reserve_def retire_slot_def b split: prod.splits)
    moreover have "heap_world_ok ?w" by (rule retire_ok [OF Suc.prems(1) ne i])
    moreover have "n = length (hs_free (hh_state (hw_heap ?w)))" using Suc.hyps(2) by (simp add: retire_slot_def)
    ultimately show ?thesis using Suc.hyps(1) [of ?w] by (cases r) simp_all
  next
    case False
    note g = saturating_inc_usable [OF False]
    have "reserve_loop (rev (hs_free ?s)) ?s = (Some (i, hs_generations ?s ! i + 1), take_slot i ?s)"
      using False g by (simp add: f take_slot_def Let_def)
    with Suc.prems(2) have "r = Some (i, hs_generations ?s ! i + 1)"
      "H' = (hw_heap w)\<lparr> hh_state := take_slot i ?s \<rparr>"
      by (auto simp: reserve_def)
    with take_ok [OF Suc.prems(1) ne i] g show ?thesis by simp
  qed
qed

lemma world_lengths:
  assumes "heap_world_ok w"
  shows "length (hs_slots (hh_state (hw_heap w))) = length (hh_slots (hw_heap w))"
    "length (hs_generations (hh_state (hw_heap w))) = length (hh_slots (hw_heap w))"
    "(i, g) \<in> hw_reserved w \<Longrightarrow> i < length (hh_slots (hw_heap w))"
    "i \<in> hw_released w \<Longrightarrow> i < length (hh_slots (hw_heap w))"
    "(i, g) \<in> hw_closing w \<Longrightarrow> i < length (hh_slots (hw_heap w))"
    "i < length (hh_slots (hw_heap w)) \<Longrightarrow> i < 65535"
    "hh_stride (hw_heap w) > 0"
  using assms by (auto simp: heap_world_ok_def heap_shape_def Let_def unat_token_mask)

lemma commit_ok:
  assumes ok: "heap_world_ok w" and ig: "(i, g) \<in> hw_reserved w"
  shows "\<exists>H. commit i g r (hw_heap w) = Some (token_address (hw_heap w) i, H) \<and>
    heap_world_ok (w\<lparr> hw_heap := H, hw_reserved := hw_reserved w - {(i, g)},
      hw_owner := (hw_owner w)(i \<mapsto> r) \<rparr>)"
proof -
  note len = world_lengths [OF ok]
  have i: "i < length (hh_slots (hw_heap w))" using len ig by blast
  then have s: "slot_ok w i" using ok by (simp add: heap_world_ok_def)
  then have st: "hs_slots (hh_state (hw_heap w)) ! i = Reserved" "hs_generations (hh_state (hw_heap w)) ! i = g"
    using ig by (auto simp: slot_ok_def Let_def)
  let ?H = "(hw_heap w)\<lparr> hh_slots := (hh_slots (hw_heap w))[i := \<lparr> sl_refcount = 1,
      sl_token = encode_token i g, sl_resource = Some r \<rparr>],
    hh_state := (hh_state (hw_heap w))\<lparr> hs_slots := (hs_slots (hh_state (hw_heap w)))[i := Live] \<rparr> \<rparr>"
  let ?w = "w\<lparr> hw_heap := ?H, hw_reserved := hw_reserved w - {(i, g)}, hw_owner := (hw_owner w)(i \<mapsto> r) \<rparr>"
  have "commit i g r (hw_heap w) = Some (token_address (hw_heap w) i, ?H)"
    using st by (simp add: commit_def Let_def)
  moreover have "heap_world_ok ?w"
  proof (rule heap_world_okI)
    show "heap_shape ?w"
      using ok st i len by (auto simp: heap_world_ok_def heap_shape_def Let_def active_count)
    fix k assume k: "k < length (hh_slots (hw_heap ?w))"
    then have "slot_ok w k" using ok by (simp add: heap_world_ok_def)
    then show "slot_ok ?w k"
      using s k st len by (cases "k = i") (auto simp: slot_ok_def Let_def)
  qed
  ultimately show ?thesis by blast
qed

lemma cancel_ok:
  assumes ok: "heap_world_ok w" and ig: "(i, g) \<in> hw_reserved w"
  shows "heap_world_ok (w\<lparr> hw_heap := cancel_reservation i g (hw_heap w),
    hw_reserved := hw_reserved w - {(i, g)} \<rparr>)" (is "heap_world_ok ?w")
proof -
  note len = world_lengths [OF ok]
  have i: "i < length (hh_slots (hw_heap w))" using len ig by blast
  then have s: "slot_ok w i" using ok by (simp add: heap_world_ok_def)
  then have st: "hs_slots (hh_state (hw_heap w)) ! i = Reserved" "hs_generations (hh_state (hw_heap w)) ! i = g"
    and nf: "i \<notin> set (hs_free (hh_state (hw_heap w)))"
    using ig by (auto simp: slot_ok_def Let_def)
  have act: "Suc (length (filter in_use ((hs_slots (hh_state (hw_heap w)))[i := Free]))) =
      length (filter in_use (hs_slots (hh_state (hw_heap w))))"
    using active_count(4) [of i "hs_slots (hh_state (hw_heap w))" Free] i len st by simp
  show ?thesis
  proof (rule heap_world_okI)
    show "heap_shape ?w"
      using ok st i len nf act
      by (auto simp: heap_world_ok_def heap_shape_def Let_def cancel_reservation_def)
    fix k assume k: "k < length (hh_slots (hw_heap ?w))"
    then have "k < length (hh_slots (hw_heap w))" by (simp add: cancel_reservation_def Let_def split: if_splits)
    moreover from this have "slot_ok w k" using ok by (simp add: heap_world_ok_def)
    ultimately show "slot_ok ?w k"
      using s st len by (cases "k = i") (auto simp: slot_ok_def Let_def cancel_reservation_def)
  qed
qed


lemma refcount_update_ok:
  assumes ok: "heap_world_ok w" and i: "i < length (hh_slots (hw_heap w))"
    and rc: "sl_refcount (hh_slots (hw_heap w) ! i) > 0" and v: "v \<ge> 0"
    and rel: "rel = (if v = 0 then insert i (hw_released w) else hw_released w)"
  shows "heap_world_ok (w\<lparr> hw_heap := (hw_heap w)\<lparr> hh_slots := (hh_slots (hw_heap w))[i :=
      (hh_slots (hw_heap w) ! i)\<lparr> sl_refcount := v \<rparr>] \<rparr>, hw_released := rel \<rparr>)" (is "heap_world_ok ?w")
proof -
  note len = world_lengths [OF ok]
  have s: "slot_ok w i" using ok i by (simp add: heap_world_ok_def)
  then have st: "hs_slots (hh_state (hw_heap w)) ! i = Live" using rc by (auto simp: slot_ok_def Let_def)
  show ?thesis
  proof (rule heap_world_okI)
    show "heap_shape ?w" using ok i by (auto simp: heap_world_ok_def heap_shape_def Let_def rel)
    fix k assume k: "k < length (hh_slots (hw_heap ?w))"
    then have "slot_ok w k" using ok by (simp add: heap_world_ok_def)
    then show "slot_ok ?w k"
      using s st i rc v k by (cases "k = i") (auto simp: slot_ok_def Let_def rel)
  qed
qed

lemma live_slot:
  assumes ok: "heap_world_ok w" and i: "i < length (hh_slots (hw_heap w))"
    and st: "hs_slots (hh_state (hw_heap w)) ! i = Live"
  obtains r where "sl_resource (hh_slots (hw_heap w) ! i) = Some r" "hw_owner w i = Some r"
    "decode_token (sl_token (hh_slots (hw_heap w) ! i)) = Some (i, hs_generations (hh_state (hw_heap w)) ! i)"
proof -
  have so: "slot_ok w i" using ok i by (simp add: heap_world_ok_def)
  have u: "in_use (hs_slots (hh_state (hw_heap w)) ! i)" by (simp add: st)
  have s: "sl_token (hh_slots (hw_heap w) ! i) = encode_token i (hs_generations (hh_state (hw_heap w)) ! i)"
    "hs_generations (hh_state (hw_heap w)) ! i \<noteq> 0" "hs_generations (hh_state (hw_heap w)) ! i \<le> MAX_GENERATION"
    "sl_resource (hh_slots (hw_heap w) ! i) \<noteq> None" "sl_resource (hh_slots (hw_heap w) ! i) = hw_owner w i"
    using st u so [unfolded slot_ok_def Let_def] by blast+
  from decode_encode [OF world_lengths(6) [OF ok i] s(2,3)] s(1,4,5) that show ?thesis by (metis option.exhaust)
qed

lemma heap_get_live:
  assumes ok: "heap_world_ok w" and i: "i < length (hh_slots (hw_heap w))"
    and rc: "sl_refcount (hh_slots (hw_heap w) ! i) > 0"
  shows "\<exists>r. hw_owner w i = Some r \<and> heap_get (hw_heap w) (token_address (hw_heap w) i) = Inr r"
proof -
  have "slot_ok w i" using ok i by (simp add: heap_world_ok_def)
  then have st: "hs_slots (hh_state (hw_heap w)) ! i = Live" using rc by (auto simp: slot_ok_def Let_def)
  from ok i st obtain r where "sl_resource (hh_slots (hw_heap w) ! i) = Some r" "hw_owner w i = Some r"
    "decode_token (sl_token (hh_slots (hw_heap w) ! i)) = Some (i, hs_generations (hh_state (hw_heap w)) ! i)"
    by (rule live_slot)
  with rc st payload_index_token [OF i world_lengths(7) [OF ok]] show ?thesis
    by (simp add: heap_get_def Let_def)
qed

lemma dealloc_ok:
  assumes ok: "heap_world_ok w" and i: "i \<in> hw_released w"
  shows "\<exists>g r H. dealloc_begin (slot_base (hw_heap w) i) (hw_heap w) = Inr ((i, g, r), H) \<and>
    hw_owner w i = Some r \<and>
    heap_world_ok (w\<lparr> hw_heap := H, hw_released := hw_released w - {i},
      hw_closing := insert (i, g) (hw_closing w), hw_owner := (hw_owner w)(i := None) \<rparr>)"
proof -
  note len = world_lengths [OF ok]
  have il: "i < length (hh_slots (hw_heap w))" using len i by blast
  then have s: "slot_ok w i" using ok by (simp add: heap_world_ok_def)
  then have st: "hs_slots (hh_state (hw_heap w)) ! i = Live" "sl_refcount (hh_slots (hw_heap w) ! i) = 0"
    using i by (auto simp: slot_ok_def Let_def)
  let ?g = "hs_generations (hh_state (hw_heap w)) ! i"
  from ok il st(1) obtain r where r: "sl_resource (hh_slots (hw_heap w) ! i) = Some r" "hw_owner w i = Some r"
    "decode_token (sl_token (hh_slots (hw_heap w) ! i)) = Some (i, ?g)"
    by (rule live_slot)
  let ?H = "(hw_heap w)\<lparr> hh_slots := (hh_slots (hw_heap w))[i :=
      (hh_slots (hw_heap w) ! i)\<lparr> sl_resource := None \<rparr>],
    hh_state := (hh_state (hw_heap w))\<lparr> hs_slots := (hs_slots (hh_state (hw_heap w)))[i := Closing] \<rparr> \<rparr>"
  let ?w = "w\<lparr> hw_heap := ?H, hw_released := hw_released w - {i},
      hw_closing := insert (i, ?g) (hw_closing w), hw_owner := (hw_owner w)(i := None) \<rparr>"
  have "dealloc_begin (slot_base (hw_heap w) i) (hw_heap w) = Inr ((i, ?g, r), ?H)"
    using index_for_slot_base [OF il len(7)] st r
    by (simp add: dealloc_begin_def Let_def is_finalized_roc_refcount_def)
  moreover have "heap_world_ok ?w"
  proof (rule heap_world_okI)
    show "heap_shape ?w"
      using ok st il len by (auto simp: heap_world_ok_def heap_shape_def Let_def active_count)
    fix k assume k: "k < length (hh_slots (hw_heap ?w))"
    then have "slot_ok w k" using ok by (simp add: heap_world_ok_def)
    then show "slot_ok ?w k"
      using s st il len k by (cases "k = i") (auto simp: slot_ok_def Let_def)
  qed
  ultimately show ?thesis using r(2) by blast
qed

lemma finish_ok:
  assumes ok: "heap_world_ok w" and ig: "(i, g) \<in> hw_closing w"
  shows "\<exists>H. dealloc_finish i g (hw_heap w) = Some H \<and>
    heap_world_ok (w\<lparr> hw_heap := H, hw_closing := hw_closing w - {(i, g)} \<rparr>)"
proof -
  note len = world_lengths [OF ok]
  have il: "i < length (hh_slots (hw_heap w))" using len ig by blast
  then have s: "slot_ok w i" using ok by (simp add: heap_world_ok_def)
  then have st: "hs_slots (hh_state (hw_heap w)) ! i = Closing" "hs_generations (hh_state (hw_heap w)) ! i = g"
    and nf: "i \<notin> set (hs_free (hh_state (hw_heap w)))"
    using ig by (auto simp: slot_ok_def Let_def)
  have act: "Suc (length (filter in_use ((hs_slots (hh_state (hw_heap w)))[i := Free]))) =
      length (filter in_use (hs_slots (hh_state (hw_heap w))))"
    using active_count(4) [of i "hs_slots (hh_state (hw_heap w))" Free] il len st by simp
  let ?s = "hh_state (hw_heap w)"
  let ?H = "(hw_heap w)\<lparr> hh_state := ?s\<lparr> hs_slots := (hs_slots ?s)[i := Free],
    hs_active := hs_active ?s - 1, hs_free := hs_free ?s @ [i] \<rparr> \<rparr>"
  let ?w = "w\<lparr> hw_heap := ?H, hw_closing := hw_closing w - {(i, g)} \<rparr>"
  have "heap_world_ok ?w"
  proof (rule heap_world_okI)
    show "heap_shape ?w"
      using ok st il len nf act by (auto simp: heap_world_ok_def heap_shape_def Let_def)
    fix k assume k: "k < length (hh_slots (hw_heap ?w))"
    then have "slot_ok w k" using ok by (simp add: heap_world_ok_def)
    then show "slot_ok ?w k"
      using s st il len k by (cases "k = i") (auto simp: slot_ok_def Let_def)
  qed
  then show ?thesis using st by (simp add: dealloc_finish_def Let_def)
qed

lemma heap_step_ok: "heap_step w w' \<Longrightarrow> heap_world_ok w \<Longrightarrow> heap_world_ok w'"
proof (induction rule: heap_step.induct)
  case (hp_reserve w i g H)
  with reserve_ok [of w "Some (i, g)" H] show ?case by simp
next
  case (hp_reserve_full w H)
  with reserve_ok [of w None H] show ?case by simp
next
  case (hp_commit i g w r handle H)
  with commit_ok [of w i g r] show ?case by auto
next
  case (hp_cancel i g w)
  then show ?case by (rule_tac cancel_ok)
next
  case (hp_incref i w amount)
  then have "heap_world_ok (w\<lparr> hw_heap := (hw_heap w)\<lparr> hh_slots := (hh_slots (hw_heap w))[i :=
      (hh_slots (hw_heap w) ! i)\<lparr> sl_refcount := sl_refcount (hh_slots (hw_heap w) ! i) + amount \<rparr>] \<rparr>,
      hw_released := hw_released w \<rparr>)"
    by (intro refcount_update_ok) auto
  with hp_incref show ?case by (simp add: incref_box_def Let_def)
next
  case (hp_decref i w last_one H)
  let ?v = "sl_refcount (hh_slots (hw_heap w) ! i) - 1"
  have "heap_world_ok (w\<lparr> hw_heap := (hw_heap w)\<lparr> hh_slots := (hh_slots (hw_heap w))[i :=
      (hh_slots (hw_heap w) ! i)\<lparr> sl_refcount := ?v \<rparr>] \<rparr>,
      hw_released := (if ?v = 0 then insert i (hw_released w) else hw_released w) \<rparr>)"
    by (intro refcount_update_ok) (use hp_decref in auto)
  with hp_decref show ?case by (auto simp: decref_box_def Let_def)
next
  case (hp_dealloc i w g r H)
  with dealloc_ok [of w i] show ?case by auto
next
  case (hp_finish i g w H)
  with finish_ok [of w i g] show ?case by auto
qed


lemma heap_reachable_ok:
  assumes "heap_step\<^sup>*\<^sup>* (heap_start H) w" "new_heap n start stride = Some H" "stride > TOKEN_OFFSET"
  shows "heap_world_ok w"
  using assms(1)
  by (induction rule: rtranclp_induct) (auto intro: new_heap_ok [OF assms(2,3)] heap_step_ok)

section \<open>Properties\<close>

text \<open>C27: tokens round-trip: the index and generation of a slot are recovered exactly from the
  64-bit token stored in it, for every index a heap can have and every generation it issues.\<close>

theorem token_roundtrip:
  assumes "index < unat TOKEN_INDEX_MASK" "generation \<noteq> 0" "generation \<le> MAX_GENERATION"
  shows "decode_token (encode_token index generation) = Some (index, generation)"
  using decode_encode assms by (simp add: unat_token_mask)

theorem token_roundtrip_witness: "decode_token (encode_token 63 7) = Some (63, 7)"
proof (rule token_roundtrip)
  show "(63::nat) < unat TOKEN_INDEX_MASK" by (simp add: unat_token_mask)
  show "(7::64 word) \<noteq> 0" by simp
  show "(7::64 word) \<le> MAX_GENERATION" by (simp add: word_le_nat_alt max_generation)
qed



end
