(* ===== verification/Resource_Handles.thy ===== *)
theory Resource_Handles
  imports Host_Resource
begin

text \<open>
  What the clients of the resource heap rely on.  A handle is held while its box has a positive
  reference count; the contract \<open>handle_store\<close> promises that a held handle resolves, and
  resolves to the same resource for as long as it is held, whatever other handles are reserved,
  committed, released or torn down meanwhile.
\<close>

locale handle_store =
  fixes step :: "'w \<Rightarrow> 'w \<Rightarrow> bool"
    and ok :: "'w \<Rightarrow> bool"
    and held :: "'w \<Rightarrow> nat \<Rightarrow> bool"
    and get :: "'w \<Rightarrow> nat \<Rightarrow> lookup_error + 'a"
  assumes ok_step: "step w w' \<Longrightarrow> ok w \<Longrightarrow> ok w'"
    and held_get: "ok w \<Longrightarrow> held w h \<Longrightarrow> \<exists>r. get w h = Inr r"
    and step_get: "ok w \<Longrightarrow> step w w' \<Longrightarrow> held w h \<Longrightarrow> held w' h \<Longrightarrow> get w' h = get w h"
begin

lemma held_run:
  assumes "(\<lambda>w w'. step w w' \<and> held w' h)\<^sup>*\<^sup>* w w'" "ok w" "held w h"
  shows "ok w' \<and> held w' h \<and> get w' h = get w h"
  using assms(1)
proof (induction rule: rtranclp_induct)
  case base
  show ?case using assms(2,3) by simp
next
  case (step y z)
  then show ?case using ok_step step_get by metis
qed

end

definition handle_held :: "'a heap_world \<Rightarrow> nat \<Rightarrow> bool" where
  "handle_held w handle =
     (case payload_index (hw_heap w) handle of
        None \<Rightarrow> False
      | Some i \<Rightarrow> sl_refcount (hh_slots (hw_heap w) ! i) > 0)"

lemma heap_step_layout:
  "heap_step w w' \<Longrightarrow> hh_start (hw_heap w') = hh_start (hw_heap w) \<and>
     hh_stride (hw_heap w') = hh_stride (hw_heap w) \<and>
     length (hh_slots (hw_heap w')) = length (hh_slots (hw_heap w))"
  by (induction rule: heap_step.induct)
    (auto simp: reserve_def commit_def cancel_reservation_def incref_box_def decref_box_def
      dealloc_begin_def dealloc_finish_def Let_def split: prod.splits option.splits if_splits)

lemma payload_index_Some:
  assumes "payload_index H h = Some i"
  shows "i < length (hh_slots H) \<and> h = token_address H i"
  using assms by (auto simp: payload_index_def index_for_base_def Let_def split: if_splits option.splits)

lemma payload_index_layout:
  assumes "hh_start H' = hh_start H" "hh_stride H' = hh_stride H"
    "length (hh_slots H') = length (hh_slots H)"
  shows "payload_index H' h = payload_index H h" "token_address H' i = token_address H i"
  using assms by (simp_all add: payload_index_def index_for_base_def token_address_def Let_def)

lemma heap_step_owner:
  assumes "heap_step w w'" "heap_world_ok w" "i < length (hh_slots (hw_heap w))"
    "sl_refcount (hh_slots (hw_heap w) ! i) > 0"
  shows "hw_owner w' i = hw_owner w i"
  using assms
proof (induction rule: heap_step.induct)
  case (hp_commit j g w r handle H)
  then have "slot_ok w j" using world_lengths(3) by (auto simp: heap_world_ok_def)
  then have "sl_refcount (hh_slots (hw_heap w) ! j) = 0"
    using hp_commit(1) by (auto simp: slot_ok_def Let_def)
  with hp_commit show ?case by auto
next
  case (hp_dealloc j w g r H)
  then have "slot_ok w j" using hp_dealloc world_lengths(4) [of w j] by (auto simp: heap_world_ok_def heap_shape_def Let_def)
  then have "sl_refcount (hh_slots (hw_heap w) ! j) = 0"
    using hp_dealloc(1) by (auto simp: slot_ok_def Let_def)
  with hp_dealloc show ?case by auto
qed simp_all

lemma held_get_owner:
  assumes "heap_world_ok w" "handle_held w h"
  obtains i r where "payload_index (hw_heap w) h = Some i" "i < length (hh_slots (hw_heap w))"
    "sl_refcount (hh_slots (hw_heap w) ! i) > 0"
    "hw_owner w i = Some r" "heap_get (hw_heap w) h = Inr r"
proof -
  from assms(2) obtain i where i: "payload_index (hw_heap w) h = Some i"
    "sl_refcount (hh_slots (hw_heap w) ! i) > 0"
    by (auto simp: handle_held_def split: option.splits)
  with payload_index_Some have l: "i < length (hh_slots (hw_heap w))" "h = token_address (hw_heap w) i"
    by blast+
  from heap_get_live [OF assms(1) l(1) i(2)] i l that show ?thesis by auto
qed

interpretation heap_handles: handle_store heap_step heap_world_ok handle_held "\<lambda>w. heap_get (hw_heap w)"
proof unfold_locales
  show "heap_step w w' \<Longrightarrow> heap_world_ok w \<Longrightarrow> heap_world_ok w'" for w w' :: "'a heap_world"
    by (rule heap_step_ok)
  show "\<exists>r. heap_get (hw_heap w) h = Inr r" if "heap_world_ok w" "handle_held w h"
    for w :: "'a heap_world" and h by (rule held_get_owner [OF that]) (rule exI)
  fix w w' :: "'a heap_world" and h
  assume ok: "heap_world_ok w" and st: "heap_step w w'" and h: "handle_held w h" "handle_held w' h"
  have ok': "heap_world_ok w'" by (rule heap_step_ok [OF st ok])
  from held_get_owner [OF ok h(1)] obtain i r where i: "payload_index (hw_heap w) h = Some i"
    "i < length (hh_slots (hw_heap w))" "sl_refcount (hh_slots (hw_heap w) ! i) > 0"
    "hw_owner w i = Some r" "heap_get (hw_heap w) h = Inr r" by blast
  from held_get_owner [OF ok' h(2)] obtain i' r' where i': "payload_index (hw_heap w') h = Some i'"
    "hw_owner w' i' = Some r'" "heap_get (hw_heap w') h = Inr r'" by blast
  have "i' = i" using i(1) i'(1) payload_index_layout(1) heap_step_layout [OF st] by (metis option.inject)
  then show "heap_get (hw_heap w') h = heap_get (hw_heap w) h"
    using heap_step_owner [OF st ok i(2,3)] i i' by simp
qed

end
