(* ===== verification/Readiness.thy ===== *)
theory Readiness
  imports Resource_Handles
begin

text \<open>
  \<open>src/src/readiness.rs\<close>: readiness gates that live in the resource heap.  A gate is one
  atomic byte; the heap stores which cell a handle owns and the cells are a separate list, so a
  store through one handle is seen by every holder of it.
\<close>

definition MAX_READINESS_GATES :: nat where
  "MAX_READINESS_GATES = 64"

definition NOT_READY :: "8 word" where
  "NOT_READY = 0"

definition READY :: "8 word" where
  "READY = 1"

definition STOPPING :: "8 word" where
  "STOPPING = 2"

text \<open>\<open>Set_Uninit\<close> marks the branch in which an uninitialised slot would be read.\<close>

datatype readiness_set_error = ServerStopping | InvalidReadiness | StaleReadiness | Set_Uninit

datatype retain_error = Invalid_Capability | Stale_Capability | Uninit_Capability

section \<open>One gate\<close>

definition gate_new :: "bool \<Rightarrow> 8 word" where
  "gate_new ready = (if ready then READY else NOT_READY)"

definition gate_is_ready :: "8 word \<Rightarrow> bool" where
  "gate_is_ready state = (state = READY)"

definition gate_set :: "bool \<Rightarrow> 8 word \<Rightarrow> readiness_set_error + 8 word" where
  "gate_set ready current =
     (let desired = (if ready then READY else NOT_READY) in
      if current \<noteq> STOPPING then Inr desired else Inl ServerStopping)"

definition gate_begin_stopping :: "8 word \<Rightarrow> 8 word" where
  "gate_begin_stopping current = STOPPING"

section \<open>Gates behind handles\<close>

record readiness_state =
  rd_gates :: "nat host_heap"
  rd_cells :: "8 word list"

definition readiness_gates :: "nat \<Rightarrow> nat \<Rightarrow> readiness_state option" where
  "readiness_gates start stride =
     map_option (\<lambda>H. \<lparr> rd_gates = H, rd_cells = [] \<rparr>) (new_heap MAX_READINESS_GATES start stride)"

definition gate_ref :: "readiness_state \<Rightarrow> nat \<Rightarrow> lookup_error + nat" where
  "gate_ref s handle = heap_get (rd_gates s) handle"

definition set_handle ::
  "nat \<Rightarrow> bool \<Rightarrow> readiness_state \<Rightarrow> (readiness_set_error + unit) \<times> readiness_state" where
  "set_handle handle ready s =
     (case gate_ref s handle of
        Inr c \<Rightarrow> (case gate_set ready (rd_cells s ! c) of
                    Inl e \<Rightarrow> (Inl e, s)
                  | Inr v \<Rightarrow> (Inr (), s\<lparr> rd_cells := (rd_cells s)[c := v] \<rparr>))
      | Inl Lookup_Invalid \<Rightarrow> (Inl InvalidReadiness, s)
      | Inl Lookup_Stale \<Rightarrow> (Inl StaleReadiness, s)
      | Inl Lookup_Uninit \<Rightarrow> (Inl Set_Uninit, s))"

text \<open>The box of a handle that resolves is the slot the handle points into.\<close>

definition box_index :: "readiness_state \<Rightarrow> nat \<Rightarrow> nat" where
  "box_index s handle = the (payload_index (rd_gates s) handle)"

definition lease_retain :: "nat \<Rightarrow> readiness_state \<Rightarrow> retain_error + readiness_state" where
  "lease_retain handle s =
     (case gate_ref s handle of
        Inr _ \<Rightarrow> Inr (s\<lparr> rd_gates := incref_box (box_index s handle) 1 (rd_gates s) \<rparr>)
      | Inl Lookup_Invalid \<Rightarrow> Inl Invalid_Capability
      | Inl Lookup_Stale \<Rightarrow> Inl Stale_Capability
      | Inl Lookup_Uninit \<Rightarrow> Inl Uninit_Capability)"

definition lease_is_ready :: "readiness_state \<Rightarrow> nat \<Rightarrow> bool" where
  "lease_is_ready s handle =
     (case gate_ref s handle of Inr c \<Rightarrow> gate_is_ready (rd_cells s ! c) | Inl _ \<Rightarrow> False)"

definition lease_begin_stopping :: "nat \<Rightarrow> readiness_state \<Rightarrow> readiness_state" where
  "lease_begin_stopping handle s =
     (case gate_ref s handle of
        Inr c \<Rightarrow> s\<lparr> rd_cells := (rd_cells s)[c := gate_begin_stopping (rd_cells s ! c)] \<rparr>
      | Inl _ \<Rightarrow> s)"

definition lease_drop :: "nat \<Rightarrow> readiness_state \<Rightarrow> bool \<times> readiness_state" where
  "lease_drop handle s =
     (case decref_box (box_index s handle) (rd_gates s) of (last_one, H) \<Rightarrow> (last_one, s\<lparr> rd_gates := H \<rparr>))"

text \<open>The reservation is committed at once; \<open>None\<close> in the outer option is a failed assertion.\<close>

definition hosted_readiness_create ::
  "bool \<Rightarrow> readiness_state \<Rightarrow> (nat option \<times> readiness_state) option" where
  "hosted_readiness_create initially_ready s =
     (case reserve (rd_gates s) of
        (None, H) \<Rightarrow> Some (None, s\<lparr> rd_gates := H \<rparr>)
      | (Some (i, g), H) \<Rightarrow>
          (case commit i g (length (rd_cells s)) H of
             None \<Rightarrow> None
           | Some (handle, H') \<Rightarrow>
               Some (Some handle, \<lparr> rd_gates = H', rd_cells = rd_cells s @ [gate_new initially_ready] \<rparr>)))"

definition hosted_readiness_set ::
  "nat \<Rightarrow> bool \<Rightarrow> readiness_state \<Rightarrow> (readiness_set_error + unit) \<times> bool \<times> readiness_state" where
  "hosted_readiness_set handle ready s =
     (case set_handle handle ready s of (result, s') \<Rightarrow> (result, lease_drop handle s'))"

definition route_resource_dealloc ::
  "nat \<Rightarrow> readiness_state option \<Rightarrow> dealloc_route + (nat \<times> 64 word \<times> nat) \<times> nat host_heap" where
  "route_resource_dealloc ptr so =
     (case so of None \<Rightarrow> Inl NotOwned | Some s \<Rightarrow> dealloc_begin ptr (rd_gates s))"

definition contains_resource_address :: "nat \<Rightarrow> readiness_state option \<Rightarrow> bool" where
  "contains_resource_address ptr so = (case so of None \<Rightarrow> False | Some s \<Rightarrow> contains_address (rd_gates s) ptr)"

section \<open>Interleavings\<close>

record readiness_world =
  rw_heap :: "nat heap_world"
  rw_cells :: "8 word list"

definition rw_state :: "readiness_world \<Rightarrow> readiness_state" where
  "rw_state w = \<lparr> rd_gates = hw_heap (rw_heap w), rd_cells = rw_cells w \<rparr>"

definition readiness_start :: "readiness_state \<Rightarrow> readiness_world" where
  "readiness_start s = \<lparr> rw_heap = heap_start (rd_gates s), rw_cells = rd_cells s \<rparr>"

text \<open>
  Besides the operations of the module the heap makes its own steps: references are copied and
  released and slots are torn down, none of which commits a resource.
\<close>

inductive readiness_step :: "readiness_world \<Rightarrow> readiness_world \<Rightarrow> bool" where
  rs_create: "hosted_readiness_create b (rw_state w) = Some (Some handle, s') \<Longrightarrow>
    readiness_step w \<lparr> rw_heap = (rw_heap w)\<lparr> hw_heap := rd_gates s',
        hw_owner := (hw_owner (rw_heap w))(box_index s' handle \<mapsto> length (rw_cells w)) \<rparr>,
      rw_cells = rd_cells s' \<rparr>"
| rs_create_full: "hosted_readiness_create b (rw_state w) = Some (None, s') \<Longrightarrow>
    readiness_step w (w\<lparr> rw_heap := (rw_heap w)\<lparr> hw_heap := rd_gates s' \<rparr> \<rparr>)"
| rs_set: "set_handle handle b (rw_state w) = (r, s') \<Longrightarrow>
    readiness_step w (w\<lparr> rw_cells := rd_cells s' \<rparr>)"
| rs_stop: "readiness_step w (w\<lparr> rw_cells := rd_cells (lease_begin_stopping handle (rw_state w)) \<rparr>)"
| rs_heap: "heap_step (rw_heap w) v \<Longrightarrow> hw_owner v \<subseteq>\<^sub>m hw_owner (rw_heap w) \<Longrightarrow>
    readiness_step w (w\<lparr> rw_heap := v \<rparr>)"

definition readiness_ok :: "readiness_world \<Rightarrow> bool" where
  "readiness_ok w =
     (heap_world_ok (rw_heap w) \<and>
      (\<forall>i c. hw_owner (rw_heap w) i = Some c \<longrightarrow> c < length (rw_cells w)))"

section \<open>Lemmas\<close>

lemma rw_state_simps [simp]: "rd_gates (rw_state w) = hw_heap (rw_heap w)" "rd_cells (rw_state w) = rw_cells w"
  by (simp_all add: rw_state_def)

lemma reserve_loop_member: "reserve_loop xs s = (Some (i, g), s') \<Longrightarrow> i \<in> set xs"
  by (induction xs s rule: reserve_loop.induct) (auto simp: Let_def split: if_splits)

text \<open>Creating a gate is a reservation followed by a commit of the next cell.\<close>

lemma create_steps:
  assumes c: "hosted_readiness_create b (rw_state w) = Some (Some handle, s')"
    and ok: "heap_world_ok (rw_heap w)"
  obtains i g H where "heap_step (rw_heap w) ((rw_heap w)\<lparr> hw_heap := H, hw_reserved := insert (i, g) (hw_reserved (rw_heap w)) \<rparr>)"
    "hh_slots H = hh_slots (hw_heap (rw_heap w))"
    "hh_start H = hh_start (hw_heap (rw_heap w))" "hh_stride H = hh_stride (hw_heap (rw_heap w))"
    "heap_step ((rw_heap w)\<lparr> hw_heap := H, hw_reserved := insert (i, g) (hw_reserved (rw_heap w)) \<rparr>)
       ((rw_heap w)\<lparr> hw_heap := rd_gates s',
          hw_owner := (hw_owner (rw_heap w))(box_index s' handle \<mapsto> length (rw_cells w)) \<rparr>)"
    "rd_cells s' = rw_cells w @ [gate_new b]"
proof -
  let ?v = "rw_heap w"
  from c obtain i g H where r: "reserve (hw_heap ?v) = (Some (i, g), H)"
    and cm: "commit i g (length (rw_cells w)) H = Some (handle, rd_gates s')"
    and cells: "rd_cells s' = rw_cells w @ [gate_new b]"
    by (auto simp: hosted_readiness_create_def split: prod.splits option.splits)
  let ?m = "?v\<lparr> hw_heap := H, hw_reserved := insert (i, g) (hw_reserved ?v) \<rparr>"
  have s1: "heap_step ?v ?m" by (rule hp_reserve [OF r])
  have lay: "hh_slots H = hh_slots (hw_heap ?v)" "hh_start H = hh_start (hw_heap ?v)"
    "hh_stride H = hh_stride (hw_heap ?v)"
    using r by (auto simp: reserve_def split: prod.splits)
  have s2: "heap_step ?m (?m\<lparr> hw_heap := rd_gates s', hw_reserved := hw_reserved ?m - {(i, g)},
      hw_owner := (hw_owner ?m)(i \<mapsto> length (rw_cells w)) \<rparr>)"
    by (rule hp_commit [OF _ ]) (use cm in simp_all)
  have okm: "heap_world_ok ?m" by (rule heap_step_ok [OF s1 ok])
  have il: "i < length (hh_slots H)" using world_lengths(3) [OF okm, of i g] by simp
  have "(i, g) \<notin> hw_reserved ?v"
  proof
    assume "(i, g) \<in> hw_reserved ?v"
    with ok il lay have "hs_slots (hh_state (hw_heap ?v)) ! i = Reserved \<and> g = hs_generations (hh_state (hw_heap ?v)) ! i"
      by (auto simp: heap_world_ok_def slot_ok_def Let_def)
    moreover have "i \<in> set (hs_free (hh_state (hw_heap ?v)))"
      using r reserve_loop_member by (fastforce simp: reserve_def split: prod.splits)
    ultimately show False using ok il lay by (auto simp: heap_world_ok_def slot_ok_def Let_def)
  qed
  then have "hw_reserved ?m - {(i, g)} = hw_reserved ?v" by auto
  moreover have "payload_index (rd_gates s') handle = payload_index H handle"
    using heap_step_layout [OF s2] by (intro payload_index_layout) simp_all
  then have "box_index s' handle = i"
    using cm il world_lengths(7) [OF okm]
    by (auto simp: box_index_def commit_def Let_def payload_index_token split: if_splits)
  ultimately have "heap_step ?m (?v\<lparr> hw_heap := rd_gates s',
      hw_owner := (hw_owner ?v)(box_index s' handle \<mapsto> length (rw_cells w)) \<rparr>)"
    using s2 by simp
  with that s1 lay cells show ?thesis by blast
qed


lemma nth_update_at: "j < length xs \<Longrightarrow> xs[i := v] ! j = (if i = j then v else xs ! j)"
  by (auto simp: nth_list_update)

lemma set_handle_cells:
  assumes "set_handle h b s = (r, s')"
  shows "rd_gates s' = rd_gates s \<and> length (rd_cells s') = length (rd_cells s) \<and>
    (\<forall>c<length (rd_cells s). rd_cells s ! c = STOPPING \<longrightarrow> rd_cells s' ! c = STOPPING)"
  using assms
  by (auto simp: set_handle_def gate_set_def Let_def nth_update_at
      split: sum.splits lookup_error.splits if_splits)

lemma lease_begin_stopping_cells:
  "rd_gates (lease_begin_stopping h s) = rd_gates s \<and>
   length (rd_cells (lease_begin_stopping h s)) = length (rd_cells s) \<and>
   (\<forall>c<length (rd_cells s). rd_cells s ! c = STOPPING \<longrightarrow> rd_cells (lease_begin_stopping h s) ! c = STOPPING)"
  by (auto simp: lease_begin_stopping_def gate_begin_stopping_def nth_update_at split: sum.splits)

lemma reserve_full_step:
  assumes "hosted_readiness_create b (rw_state w) = Some (None, s')"
  shows "heap_step (rw_heap w) ((rw_heap w)\<lparr> hw_heap := rd_gates s' \<rparr>)"
  using assms
  by (auto simp: hosted_readiness_create_def intro: hp_reserve_full split: prod.splits option.splits)

lemma readiness_step_ok: "readiness_step w w' \<Longrightarrow> readiness_ok w \<Longrightarrow> readiness_ok w'"
proof (induction rule: readiness_step.induct)
  case (rs_create b w handle s')
  then have ok: "heap_world_ok (rw_heap w)" by (simp add: readiness_ok_def)
  from create_steps [OF rs_create.hyps ok] heap_step_ok ok
  have "heap_world_ok ((rw_heap w)\<lparr> hw_heap := rd_gates s',
        hw_owner := (hw_owner (rw_heap w))(box_index s' handle \<mapsto> length (rw_cells w)) \<rparr>)"
    "rd_cells s' = rw_cells w @ [gate_new b]"
    by metis+
  with rs_create show ?case by (auto simp: readiness_ok_def less_Suc_eq)
next
  case (rs_create_full b w s')
  with heap_step_ok [OF reserve_full_step] show ?case by (auto simp: readiness_ok_def)
next
  case (rs_set handle b w r s')
  with set_handle_cells [OF rs_set.hyps] show ?case by (auto simp: readiness_ok_def)
next
  case (rs_stop w handle)
  with lease_begin_stopping_cells [of handle "rw_state w"] show ?case by (auto simp: readiness_ok_def)
next
  case (rs_heap w v)
  then show ?case by (auto simp: readiness_ok_def map_le_def dom_def dest: heap_step_ok)
qed

lemma readiness_step_stopping:
  assumes "readiness_step w w'" "c < length (rw_cells w)" "rw_cells w ! c = STOPPING" "readiness_ok w"
  shows "c < length (rw_cells w') \<and> rw_cells w' ! c = STOPPING"
  using assms
proof (induction rule: readiness_step.induct)
  case (rs_create b w handle s')
  then have "heap_world_ok (rw_heap w)" by (simp add: readiness_ok_def)
  with create_steps [OF rs_create.hyps] have "rd_cells s' = rw_cells w @ [gate_new b]" by metis
  with rs_create show ?case by (simp add: nth_append)
next
  case (rs_set handle b w r s')
  with set_handle_cells [OF rs_set.hyps] show ?case by simp
next
  case (rs_stop w handle)
  with lease_begin_stopping_cells [of handle "rw_state w"] show ?case by simp
qed simp_all

interpretation readiness_handles: handle_store readiness_step readiness_ok
  "\<lambda>w. handle_held (rw_heap w)" "\<lambda>w. gate_ref (rw_state w)"
proof unfold_locales
  show "readiness_step w w' \<Longrightarrow> readiness_ok w \<Longrightarrow> readiness_ok w'" for w w'
    by (rule readiness_step_ok)
  show "readiness_ok w \<Longrightarrow> handle_held (rw_heap w) h \<Longrightarrow> \<exists>r. gate_ref (rw_state w) h = Inr r" for w h
    using heap_handles.held_get [of "rw_heap w" h] by (simp add: readiness_ok_def gate_ref_def)
  fix w w' h
  assume ok: "readiness_ok w" and st: "readiness_step w w'"
    and h: "handle_held (rw_heap w) h" "handle_held (rw_heap w') h"
  from st ok h show "gate_ref (rw_state w') h = gate_ref (rw_state w) h"
  proof (induction rule: readiness_step.induct)
    case (rs_create b w handle s')
    then have okw: "heap_world_ok (rw_heap w)" by (simp add: readiness_ok_def)
    from create_steps [OF rs_create.hyps okw] obtain i g H where
      s: "heap_step (rw_heap w) ((rw_heap w)\<lparr> hw_heap := H, hw_reserved := insert (i, g) (hw_reserved (rw_heap w)) \<rparr>)"
      "heap_step ((rw_heap w)\<lparr> hw_heap := H, hw_reserved := insert (i, g) (hw_reserved (rw_heap w)) \<rparr>) ((rw_heap w)\<lparr> hw_heap := rd_gates s',
          hw_owner := (hw_owner (rw_heap w))(box_index s' handle \<mapsto> length (rw_cells w)) \<rparr>)"
      and lay: "hh_slots H = hh_slots (hw_heap (rw_heap w))"
      "hh_start H = hh_start (hw_heap (rw_heap w))" "hh_stride H = hh_stride (hw_heap (rw_heap w))" by metis
    let ?m = "(rw_heap w)\<lparr> hw_heap := H, hw_reserved := insert (i, g) (hw_reserved (rw_heap w)) \<rparr>"
    have "handle_held ?m h"
      using rs_create.prems(2) lay payload_index_layout(1) [of H "hw_heap (rw_heap w)" h]
      by (simp add: handle_held_def split: option.splits)
    with heap_handles.step_get [OF okw s(1)] heap_handles.step_get [OF heap_step_ok [OF s(1) okw] s(2)] rs_create.prems
    show ?case by (simp add: gate_ref_def)
  next
    case (rs_create_full b w s')
    then show ?case
      using heap_handles.step_get [OF _ reserve_full_step [OF rs_create_full.hyps]]
      by (simp add: gate_ref_def readiness_ok_def)
  next
    case (rs_heap w v)
    then show ?case using heap_handles.step_get [OF _ rs_heap.hyps(1)] by (simp add: gate_ref_def readiness_ok_def)
  qed (simp_all add: gate_ref_def)
qed

lemma held_cell:
  assumes "readiness_ok w" "handle_held (rw_heap w) h"
  obtains c where "gate_ref (rw_state w) h = Inr c" "c < length (rw_cells w)"
proof -
  from assms(1) have ok: "heap_world_ok (rw_heap w)" by (simp add: readiness_ok_def)
  from held_get_owner [OF ok assms(2)] assms(1) that show ?thesis
    by (metis gate_ref_def readiness_ok_def rw_state_simps(1))
qed

lemma readiness_start_ok:
  assumes "readiness_gates start stride = Some s" "stride > TOKEN_OFFSET"
  shows "readiness_ok (readiness_start s)"
  using assms heap_reachable_ok [OF rtranclp.rtrancl_refl]
  by (auto simp: readiness_gates_def readiness_ok_def readiness_start_def heap_start_def)

lemma readiness_reachable_ok:
  assumes "readiness_gates start stride = Some s" "stride > TOKEN_OFFSET"
    "readiness_step\<^sup>*\<^sup>* (readiness_start s) w"
  shows "readiness_ok w"
  using assms(3) by (induction rule: rtranclp_induct) (auto intro: readiness_start_ok [OF assms(1,2)] readiness_step_ok)

lemma stopping_run:
  assumes run: "(\<lambda>w w'. readiness_step w w' \<and> handle_held (rw_heap w') h)\<^sup>*\<^sup>* w w'"
    and "readiness_ok w" "handle_held (rw_heap w) h" "gate_ref (rw_state w) h = Inr c"
    "c < length (rw_cells w)" "rw_cells w ! c = STOPPING"
  shows "gate_ref (rw_state w') h = Inr c \<and> c < length (rw_cells w') \<and> rw_cells w' ! c = STOPPING"
  using run
proof (induction rule: rtranclp_induct)
  case base
  show ?case using assms(4-) by simp
next
  case (step y z)
  have y: "readiness_ok y" "handle_held (rw_heap y) h"
    using readiness_handles.held_run [OF step.hyps(1) assms(2,3)] by auto
  then show ?case
    using step readiness_step_stopping [of y z c] readiness_handles.step_get [of y z h] by auto
qed

section \<open>Properties\<close>

text \<open>C28: draining is permanent.  Once a holder of a readiness gate has put it into the stopping
  state, then, for as long as the handle is held and whatever other operations on gates and on the
  resource heap run meanwhile, the gate is not ready and an attempt of the application to set it
  fails with \<open>ServerStopping\<close> and changes nothing.\<close>

theorem readiness_stopping_permanent:
  assumes "readiness_gates start stride = Some s" "stride > TOKEN_OFFSET"
    and "readiness_step\<^sup>*\<^sup>* (readiness_start s) w" "handle_held (rw_heap w) h"
    and "w1 = w\<lparr> rw_cells := rd_cells (lease_begin_stopping h (rw_state w)) \<rparr>"
    and "(\<lambda>w w'. readiness_step w w' \<and> handle_held (rw_heap w') h)\<^sup>*\<^sup>* w1 w2"
  shows "\<not> lease_is_ready (rw_state w2) h \<and>
    set_handle h ready (rw_state w2) = (Inl ServerStopping, rw_state w2)"
proof -
  have ok: "readiness_ok w" by (rule readiness_reachable_ok [OF assms(1-3)])
  from held_cell [OF ok assms(4)] obtain c where c: "gate_ref (rw_state w) h = Inr c" "c < length (rw_cells w)" .
  have ok1: "readiness_ok w1" unfolding assms(5) by (rule readiness_step_ok [OF rs_stop ok])
  have c1: "gate_ref (rw_state w1) h = Inr c" "c < length (rw_cells w1)" "rw_cells w1 ! c = STOPPING"
    using c unfolding assms(5) by (simp_all add: gate_ref_def lease_begin_stopping_def gate_begin_stopping_def)
  have "handle_held (rw_heap w1) h" using assms(4,5) by simp
  from stopping_run [OF assms(6) ok1 this c1] show ?thesis
    by (simp add: lease_is_ready_def set_handle_def gate_is_ready_def gate_set_def STOPPING_def READY_def Let_def)
qed


lemma sample_gate:
  "(case readiness_gates 4096 24 of
      None \<Rightarrow> False
    | Some s \<Rightarrow>
       (case hosted_readiness_create True s of
          Some (Some h, s') \<Rightarrow> h = 4104 \<and> payload_index (rd_gates s') h = Some 0 \<and>
            sl_refcount (hh_slots (rd_gates s') ! 0) = 1
        | _ \<Rightarrow> False))"
  by code_simp

lemma sample_gate_world:
  obtains s w where "readiness_gates 4096 24 = Some s" "readiness_step\<^sup>*\<^sup>* (readiness_start s) w"
    "handle_held (rw_heap w) 4104"
proof -
  obtain s s' where s: "readiness_gates 4096 24 = Some s"
    and c: "hosted_readiness_create True s = Some (Some 4104, s')"
    and p: "payload_index (rd_gates s') 4104 = Some 0" "sl_refcount (hh_slots (rd_gates s') ! 0) = 1"
    using sample_gate by (auto split: option.splits)
  have e: "rw_state (readiness_start s) = s" by (simp add: rw_state_def readiness_start_def heap_start_def)
  let ?v = "rw_heap (readiness_start s)"
  let ?w = "\<lparr> rw_heap = ?v\<lparr> hw_heap := rd_gates s',
        hw_owner := (hw_owner ?v)(box_index s' 4104 \<mapsto> length (rw_cells (readiness_start s))) \<rparr>,
      rw_cells = rd_cells s' \<rparr>"
  have "readiness_step\<^sup>*\<^sup>* (readiness_start s) ?w"
    by (rule r_into_rtranclp, rule rs_create [where b = True]) (simp add: e c)
  moreover have "handle_held (rw_heap ?w) 4104" using p by (simp add: handle_held_def)
  ultimately show ?thesis using that s by blast
qed

theorem readiness_stopping_permanent_witness:
  "\<exists>w. handle_held (rw_heap w) 4104 \<and> \<not> lease_is_ready (lease_begin_stopping 4104 (rw_state w)) 4104"
proof -
  obtain s w where s: "readiness_gates 4096 24 = Some s" and r: "readiness_step\<^sup>*\<^sup>* (readiness_start s) w"
    and h: "handle_held (rw_heap w) 4104" by (rule sample_gate_world)
  let ?w = "w\<lparr> rw_cells := rd_cells (lease_begin_stopping 4104 (rw_state w)) \<rparr>"
  have "\<not> lease_is_ready (rw_state ?w) 4104"
    using readiness_stopping_permanent [OF s _ r h refl rtranclp.rtrancl_refl] by (simp add: TOKEN_OFFSET_def)
  moreover have "rw_state ?w = lease_begin_stopping 4104 (rw_state w)"
    using lease_begin_stopping_cells [of 4104 "rw_state w"] by (simp add: rw_state_def)
  ultimately show ?thesis using h by metis
qed

end
