(* ===== verification/Native_Router.thy ===== *)
theory Native_Router
  imports Readiness File_Server "HOL-Library.Product_Lexorder"
begin

text \<open>
  \<open>src/src/native_router.rs\<close>: the table of routes that the host serves without the
  application.  A \<open>BTreeMap\<close> is its association list in key order.  Probing a readiness
  route reads the gate of its lease in the readiness state; the atomic counters are part of the
  router and saturate.
\<close>

definition MAX_NATIVE_ROUTES :: nat where
  "MAX_NATIVE_ROUTES = 128"

definition MAX_ROUTE_PATH_BYTES :: nat where
  "MAX_ROUTE_PATH_BYTES = 4 * 1024"

definition PROBE_ALLOW :: string where "PROBE_ALLOW = ''GET, HEAD''"
definition PROBE_CONTENT_TYPE :: string where "PROBE_CONTENT_TYPE = ''text/plain; charset=utf-8''"
definition PROBE_CACHE_CONTROL :: string where "PROBE_CACHE_CONTROL = ''no-store''"
definition LIVE_BODY :: string where "LIVE_BODY = ''OK'' @ [CHR 0x0A]"
definition READY_BODY :: string where "READY_BODY = ''OK'' @ [CHR 0x0A]"
definition NOT_READY_BODY :: string where "NOT_READY_BODY = ''NOT READY'' @ [CHR 0x0A]"
definition METHOD_NOT_ALLOWED_BODY :: string where
  "METHOD_NOT_ALLOWED_BODY = ''Method Not Allowed'' @ [CHR 0x0A]"

section \<open>Routes\<close>

datatype file_route_kind = Prefix | Exact

record file_route_spec =
  frt_at :: string
  frt_root_id :: string
  frt_kind :: file_route_kind
  frt_relative :: string
  frt_cache :: "cache_policy option"

record readiness_route_spec =
  rrt_at :: string
  rrt_readiness :: nat

datatype exact_route =
  Exact_File string string "cache_policy option" | Exact_Liveness | Exact_Readiness nat | Exact_Metrics

record prefix_route =
  px_at :: string
  px_root_id :: string
  px_cache :: "cache_policy option"

datatype probe_kind = Liveness | Readiness_Probe

record probe_counters =
  pc_liveness_requests :: "64 word"
  pc_readiness_requests :: "64 word"
  pc_ready_responses :: "64 word"
  pc_not_ready_responses :: "64 word"
  pc_method_not_allowed_responses :: "64 word"

record native_router =
  nr_exact :: "(string \<times> exact_route) list"
  nr_prefixes :: "prefix_route list"
  nr_probes :: probe_counters

definition zero_counters :: probe_counters where
  "zero_counters = \<lparr> pc_liveness_requests = 0, pc_readiness_requests = 0, pc_ready_responses = 0,
     pc_not_ready_responses = 0, pc_method_not_allowed_responses = 0 \<rparr>"

text \<open>\<open>fetch_update\<close> with \<open>checked_add\<close>: a counter at its maximum stays there.\<close>

definition saturating_increment :: "64 word \<Rightarrow> 64 word" where
  "saturating_increment v = (if v = - 1 then v else v + 1)"

definition record_request :: "probe_kind \<Rightarrow> probe_counters \<Rightarrow> probe_counters" where
  "record_request kind p =
     (case kind of
        Liveness \<Rightarrow> p\<lparr> pc_liveness_requests := saturating_increment (pc_liveness_requests p) \<rparr>
      | Readiness_Probe \<Rightarrow> p\<lparr> pc_readiness_requests := saturating_increment (pc_readiness_requests p) \<rparr>)"

definition record_status :: "nat \<Rightarrow> probe_counters \<Rightarrow> probe_counters" where
  "record_status status p =
     (if status = 200 then p\<lparr> pc_ready_responses := saturating_increment (pc_ready_responses p) \<rparr>
      else if status = 503 then p\<lparr> pc_not_ready_responses := saturating_increment (pc_not_ready_responses p) \<rparr>
      else if status = 405
      then p\<lparr> pc_method_not_allowed_responses := saturating_increment (pc_method_not_allowed_responses p) \<rparr>
      else p)"

section \<open>Activation\<close>

datatype router_error =
  Route_Count_Overflow | Too_Many_Routes | Invalid_Route_Path string | Unexpected_Relative string
| Route_File_Error string native_route_error | Duplicate_Exact string | Duplicate_Prefix string

definition validate_route_path :: "string \<Rightarrow> router_error + unit" where
  "validate_route_path path =
     (if \<not> starts_with path ''/'' \<or> length path > MAX_ROUTE_PATH_BYTES \<or>
         (length path > 1 \<and> ends_with path ''/'') \<or> contains_str path ''//'' \<or>
         \<not> list_all is_ascii path \<or>
         list_ex (\<lambda>byte. byte = CHR ''%'' \<or> byte = CHR 0x5C \<or> code byte = 0 \<or> byte = CHR ''?'') path
      then Inl (Invalid_Route_Path path)
      else if list_ex (\<lambda>segment. segment = ''.'' \<or> segment = ''..'' \<or> starts_with segment ''.'')
                (tl (split_on CHR ''/'' path))
      then Inl (Invalid_Route_Path path)
      else Inr ())"

fun btree_insert :: "'k::linorder \<Rightarrow> 'v \<Rightarrow> ('k \<times> 'v) list \<Rightarrow> ('k \<times> 'v) list" where
  "btree_insert k v [] = [(k, v)]"
| "btree_insert k v ((k', v') # rest) =
     (if k < k' then (k, v) # (k', v') # rest
      else if k = k' then (k, v) # rest
      else (k', v') # btree_insert k v rest)"

definition insert_exact ::
  "(string \<times> exact_route) list \<Rightarrow> string \<Rightarrow> exact_route \<Rightarrow> router_error + (string \<times> exact_route) list" where
  "insert_exact routes at route =
     (if map_of routes at \<noteq> None then Inl (Duplicate_Exact at) else Inr (btree_insert at route routes))"

definition add_file_route ::
  "'d file_service \<Rightarrow> file_route_spec \<Rightarrow> (string \<times> exact_route) list \<times> prefix_route list \<Rightarrow>
     router_error + (string \<times> exact_route) list \<times> prefix_route list" where
  "add_file_route files spec tables =
     bind_result (validate_route_path (frt_at spec)) (\<lambda>_.
     if frt_kind spec = Prefix \<and> frt_relative spec \<noteq> [] then Inl (Unexpected_Relative (frt_at spec))
     else (case validate_native_route files (frt_root_id spec)
                  (if frt_kind spec = Exact then Some (frt_relative spec) else None) of
             Inl e \<Rightarrow> Inl (Route_File_Error (frt_at spec) e)
           | Inr _ \<Rightarrow>
               (case frt_kind spec of
                  Exact \<Rightarrow>
                    bind_result (insert_exact (fst tables) (frt_at spec)
                        (Exact_File (frt_root_id spec) (frt_relative spec) (frt_cache spec)))
                      (\<lambda>exact. Inr (exact, snd tables))
                | Prefix \<Rightarrow>
                    if frt_at spec \<in> set (map px_at (snd tables)) then Inl (Duplicate_Prefix (frt_at spec))
                    else Inr (fst tables, snd tables @ [\<lparr> px_at = frt_at spec, px_root_id = frt_root_id spec,
                           px_cache = frt_cache spec \<rparr>]))))"

definition add_exact_route ::
  "string \<times> exact_route \<Rightarrow> (string \<times> exact_route) list \<Rightarrow> router_error + (string \<times> exact_route) list" where
  "add_exact_route at_route exact =
     bind_result (validate_route_path (fst at_route)) (\<lambda>_. insert_exact exact (fst at_route) (snd at_route))"

fun fold_result :: "('a \<Rightarrow> 's \<Rightarrow> 'e + 's) \<Rightarrow> 'a list \<Rightarrow> 's \<Rightarrow> 'e + 's" where
  "fold_result f [] s = Inr s"
| "fold_result f (x # xs) s = bind_result (f x s) (fold_result f xs)"

definition prefix_order :: "prefix_route \<Rightarrow> int \<times> string" where
  "prefix_order p = (- int (length (px_at p)), px_at p)"

definition activate_router ::
  "'d file_service \<Rightarrow> file_route_spec list \<Rightarrow> string list \<Rightarrow> readiness_route_spec list \<Rightarrow> string option \<Rightarrow>
     router_error + native_router" where
  "activate_router files file_specs liveness_paths readiness_specs metrics_path =
     (let route_count = length file_specs + length liveness_paths + length readiness_specs +
            (if metrics_path = None then 0 else 1) in
      if route_count > usize_max then Inl Route_Count_Overflow
      else if route_count > MAX_NATIVE_ROUTES then Inl Too_Many_Routes
      else bind_result (fold_result (add_file_route files) file_specs ([], [])) (\<lambda>(exact, prefixes).
           bind_result (fold_result add_exact_route
             (map (\<lambda>at. (at, Exact_Liveness)) liveness_paths @
              map (\<lambda>spec. (rrt_at spec, Exact_Readiness (rrt_readiness spec))) readiness_specs @
              (case metrics_path of None \<Rightarrow> [] | Some at \<Rightarrow> [(at, Exact_Metrics)])) exact) (\<lambda>exact.
           Inr \<lparr> nr_exact = exact, nr_prefixes = sort_key prefix_order prefixes,
             nr_probes = zero_counters \<rparr>)))"

section \<open>Routing\<close>

definition probe_response ::
  "'h http_crate \<Rightarrow> probe_kind \<Rightarrow> bool \<Rightarrow> string \<Rightarrow> probe_counters \<Rightarrow>
     ('h, 'b) server_response option \<times> probe_counters" where
  "probe_response C kind available method probes =
     (let probes = record_request kind probes;
          (status, body) =
            (if method \<noteq> ''GET'' \<and> method \<noteq> ''HEAD'' then (405, METHOD_NOT_ALLOWED_BODY)
             else if available then (200, if kind = Liveness then LIVE_BODY else READY_BODY)
             else (503, NOT_READY_BODY));
          probes = record_status status probes;
          headers = hm_insert C (hm_insert C (hm_new C) ''cache-control'' PROBE_CACHE_CONTROL)
                      ''content-type'' PROBE_CONTENT_TYPE in
      case hv_from_str C (to_decimal (length body)) of
        None \<Rightarrow> (None, probes)
      | Some value \<Rightarrow>
          (let headers = hm_insert C headers ''content-length'' value in
           (Some \<lparr> rsp_status = status,
              rsp_headers = (if status = 405 then hm_insert C headers ''allow'' PROBE_ALLOW else headers),
              rsp_body = (if method = ''HEAD'' then Empty_Body else Full_Body body) \<rparr>, probes)))"

text \<open>\<open>Match_Panic\<close> is the failed \<open>expect\<close> of a probe.\<close>

datatype ('h, 'b) native_match =
  Match_File file_plan | Match_Probe "('h, 'b) server_response" | Match_Metrics | Match_Panic

definition mount_relative :: "string \<Rightarrow> string \<Rightarrow> string option" where
  "mount_relative at uri_path =
     (if uri_path = at then Some ''''
      else (case strip_prefix uri_path at of
              None \<Rightarrow> None | Some suffix \<Rightarrow> strip_prefix suffix ''/''))"

text \<open>The outer \<open>None\<close> leaves \<open>route\<close> at once, as the \<open>?\<close> on the root mount does.\<close>

fun route_prefixes :: "prefix_route list \<Rightarrow> string \<Rightarrow> file_plan option" where
  "route_prefixes [] uri_path = None"
| "route_prefixes (route # rest) uri_path =
     (if px_at route = ''/'' then
        (case strip_prefix uri_path ''/'' of
           None \<Rightarrow> None
         | Some relative \<Rightarrow> Some (native_plan (px_root_id route) relative True (px_cache route)))
      else (case mount_relative (px_at route) uri_path of
              None \<Rightarrow> route_prefixes rest uri_path
            | Some relative \<Rightarrow> Some (native_plan (px_root_id route) relative True (px_cache route))))"

definition route_probe ::
  "'h http_crate \<Rightarrow> probe_kind \<Rightarrow> bool \<Rightarrow> string \<Rightarrow> native_router \<Rightarrow>
     ('h, 'b) native_match option \<times> native_router" where
  "route_probe C kind available method router =
     (case probe_response C kind available method (nr_probes router) of
        (response, probes) \<Rightarrow>
          (Some (case response of None \<Rightarrow> Match_Panic | Some r \<Rightarrow> Match_Probe r),
           router\<lparr> nr_probes := probes \<rparr>))"

definition route ::
  "'h http_crate \<Rightarrow> readiness_state \<Rightarrow> string \<Rightarrow> string \<Rightarrow> native_router \<Rightarrow>
     ('h, 'b) native_match option \<times> native_router" where
  "route C R uri_path method router =
     (case map_of (nr_exact router) uri_path of
        Some (Exact_File root_id relative cache) \<Rightarrow>
          (Some (Match_File (native_plan root_id relative False cache)), router)
      | Some Exact_Liveness \<Rightarrow> route_probe C Liveness True method router
      | Some (Exact_Readiness lease) \<Rightarrow> route_probe C Readiness_Probe (lease_is_ready R lease) method router
      | Some Exact_Metrics \<Rightarrow> (Some Match_Metrics, router)
      | None \<Rightarrow> (map_option Match_File (route_prefixes (nr_prefixes router) uri_path), router))"

fun router_begin_draining :: "(string \<times> exact_route) list \<Rightarrow> readiness_state \<Rightarrow> readiness_state" where
  "router_begin_draining [] R = R"
| "router_begin_draining ((at, entry) # rest) R =
     router_begin_draining rest
       (case entry of Exact_Readiness lease \<Rightarrow> lease_begin_stopping lease R | _ \<Rightarrow> R)"

section \<open>Lemmas\<close>

lemma map_of_btree_insert: "map_of (btree_insert k v m) = (map_of m)(k \<mapsto> v)" if "sorted_wrt (<) (map fst m)"
  using that
proof (induction k v m rule: btree_insert.induct)
  case (2 k v k' v' rest)
  then show ?case by (auto simp: fun_eq_iff)
qed simp

lemma set_btree_insert: "set (btree_insert k v m) \<subseteq> insert (k, v) (set m)"
  by (induction k v m rule: btree_insert.induct) auto

lemma btree_insert_sorted: "sorted_wrt (<) (map fst m) \<Longrightarrow> sorted_wrt (<) (map fst (btree_insert k v m))"
proof (induction k v m rule: btree_insert.induct)
  case (2 k v k' v' rest)
  with set_btree_insert [of k v rest] show ?case by fastforce
qed simp

lemma fold_result_invariant:
  assumes "\<And>x s s'. x \<in> set xs \<Longrightarrow> I s \<Longrightarrow> f x s = Inr s' \<Longrightarrow> I s'"
  shows "fold_result f xs s = Inr s' \<Longrightarrow> I s \<Longrightarrow> I s'"
  using assms by (induction xs arbitrary: s) auto

text \<open>
  What activation establishes: distinct valid paths, and every file route names a declared root
  and a safe relative file.
\<close>

definition exact_route_ok :: "'d file_service \<Rightarrow> exact_route \<Rightarrow> bool" where
  "exact_route_ok files r =
     (case r of
        Exact_File root_id relative _ \<Rightarrow>
          fs_roots files root_id \<noteq> None \<and> is_ok (validate_relative_path relative)
      | _ \<Rightarrow> True)"

definition tables_ok :: "'d file_service \<Rightarrow> (string \<times> exact_route) list \<times> prefix_route list \<Rightarrow> bool" where
  "tables_ok files t =
     (sorted_wrt (<) (map fst (fst t)) \<and> distinct (map px_at (snd t)) \<and>
      (\<forall>(at, r)\<in>set (fst t). is_ok (validate_route_path at) \<and> exact_route_ok files r) \<and>
      (\<forall>p\<in>set (snd t). is_ok (validate_route_path (px_at p)) \<and> fs_roots files (px_root_id p) \<noteq> None))"

lemma insert_exact_ok:
  assumes "insert_exact exact at r = Inr exact'" "tables_ok files (exact, prefixes)"
    "is_ok (validate_route_path at)" "exact_route_ok files r"
  shows "tables_ok files (exact', prefixes)"
proof -
  have e: "exact' = btree_insert at r exact" using assms(1) by (simp add: insert_exact_def split: if_splits)
  show ?thesis
    using assms(2-4) set_btree_insert [of at r exact] btree_insert_sorted [of exact at r]
    by (fastforce simp: tables_ok_def e)
qed

lemma add_file_route_ok:
  assumes "add_file_route files spec t = Inr t'" "tables_ok files t"
  shows "tables_ok files t'"
proof -
  obtain exact prefixes where t: "t = (exact, prefixes)" by (cases t)
  have v: "is_ok (validate_route_path (frt_at spec))"
    using assms(1) by (auto simp: add_file_route_def is_ok_iff)
  show ?thesis
  proof (cases "frt_kind spec")
    case Exact
    then obtain exact' where e: "insert_exact exact (frt_at spec)
        (Exact_File (frt_root_id spec) (frt_relative spec) (frt_cache spec)) = Inr exact'" "t' = (exact', prefixes)"
      and r: "is_ok (validate_native_route files (frt_root_id spec) (Some (frt_relative spec)))"
      using assms(1) t by (auto simp: add_file_route_def split: sum.splits if_splits)
    have "exact_route_ok files (Exact_File (frt_root_id spec) (frt_relative spec) (frt_cache spec))"
      using r by (auto simp: exact_route_ok_def validate_native_route_def is_ok_def split: if_splits sum.splits)
    with insert_exact_ok [OF e(1) _ v] assms(2) t e(2) show ?thesis by simp
  next
    case Prefix
    then have "frt_at spec \<notin> set (map px_at prefixes)"
      "t' = (exact, prefixes @ [\<lparr> px_at = frt_at spec, px_root_id = frt_root_id spec, px_cache = frt_cache spec \<rparr>])"
      "fs_roots files (frt_root_id spec) \<noteq> None"
      using assms(1) t by (auto simp: add_file_route_def validate_native_route_def split: sum.splits if_splits)
    with assms(2) t v show ?thesis by (auto simp: tables_ok_def)
  qed
qed

lemma add_exact_route_ok:
  assumes "add_exact_route ar exact = Inr exact'" "tables_ok files (exact, prefixes)" "exact_route_ok files (snd ar)"
  shows "tables_ok files (exact', prefixes)"
  using assms insert_exact_ok by (auto simp: add_exact_route_def is_ok_iff)

lemma activate_router_ok:
  assumes "activate_router files specs live ready metrics = Inr router"
  shows "tables_ok files (nr_exact router, nr_prefixes router) \<and>
    sorted_wrt (\<lambda>p q. prefix_order p \<le> prefix_order q) (nr_prefixes router)"
proof -
  from assms obtain e0 ps exact where
    f: "fold_result (add_file_route files) specs ([], []) = Inr (e0, ps)"
    and x: "fold_result add_exact_route
             (map (\<lambda>at. (at, Exact_Liveness)) live @
              map (\<lambda>spec. (rrt_at spec, Exact_Readiness (rrt_readiness spec))) ready @
              (case metrics of None \<Rightarrow> [] | Some at \<Rightarrow> [(at, Exact_Metrics)])) e0 = Inr exact"
    and r: "router = \<lparr> nr_exact = exact, nr_prefixes = sort_key prefix_order ps, nr_probes = zero_counters \<rparr>"
    by (auto simp: activate_router_def Let_def split: if_splits)
  have "tables_ok files ([], [])" by (simp add: tables_ok_def)
  with f have t: "tables_ok files (e0, ps)"
    by (rule fold_result_invariant [where I = "tables_ok files", rotated]) (rule add_file_route_ok)
  have "tables_ok files (exact, ps)"
  proof (rule fold_result_invariant [where I = "\<lambda>e. tables_ok files (e, ps)", OF _ x t])
    fix ar e e'
    assume "ar \<in> set (map (\<lambda>at. (at, Exact_Liveness)) live @
              map (\<lambda>spec. (rrt_at spec, Exact_Readiness (rrt_readiness spec))) ready @
              (case metrics of None \<Rightarrow> [] | Some at \<Rightarrow> [(at, Exact_Metrics)]))"
    then have "exact_route_ok files (snd ar)" by (auto simp: exact_route_ok_def split: option.splits)
    then show "tables_ok files (e, ps) \<Longrightarrow> add_exact_route ar e = Inr e' \<Longrightarrow> tables_ok files (e', ps)"
      using add_exact_route_ok by blast
  qed
  moreover have "sorted_wrt (\<lambda>p q. prefix_order p \<le> prefix_order q) (sort_key prefix_order ps)"
    using sorted_sort_key [of prefix_order ps] unfolding sorted_map .
  moreover have "distinct (map px_at (sort_key prefix_order ps))" if "distinct (map px_at ps)"
    using that by (simp add: distinct_map)
  ultimately show ?thesis by (simp add: r tables_ok_def)
qed

text \<open>The relative path a mount gives a request path, if it matches.\<close>

definition mount :: "prefix_route \<Rightarrow> string \<Rightarrow> string option" where
  "mount p uri_path =
     (if px_at p = ''/'' then strip_prefix uri_path ''/'' else mount_relative (px_at p) uri_path)"

lemma route_path_slash:
  assumes "is_ok (validate_route_path at)" "length at \<le> 1"
  shows "at = ''/''"
proof -
  have "starts_with at ''/''" using assms(1) by (auto simp: validate_route_path_def split: if_splits)
  then obtain r where "at = CHR ''/'' # r" by (auto simp: starts_with_char)
  with assms(2) show ?thesis by simp
qed

lemma prefix_order_length: "prefix_order p \<le> prefix_order q \<Longrightarrow> length (px_at q) \<le> length (px_at p)"
  by (auto simp: prefix_order_def less_eq_prod_def)

lemma route_prefixes_find:
  assumes "sorted_wrt (\<lambda>p q. prefix_order p \<le> prefix_order q) ps" "distinct (map px_at ps)"
    "\<forall>p\<in>set ps. is_ok (validate_route_path (px_at p))"
  shows "route_prefixes ps uri_path =
    (case find (\<lambda>p. mount p uri_path \<noteq> None) ps of
       None \<Rightarrow> None
     | Some p \<Rightarrow> Some (native_plan (px_root_id p) (the (mount p uri_path)) True (px_cache p)))"
  using assms
proof (induction ps)
  case (Cons p ps)
  show ?case
  proof (cases "px_at p = ''/''")
    case True
    have "ps = []"
    proof (rule ccontr)
      assume "ps \<noteq> []"
      then obtain q where q: "q \<in> set ps" by (meson list.set_sel(1))
      then have "length (px_at q) \<le> 1" using Cons.prems(1) prefix_order_length [of p q] True by auto
      then have "px_at q = ''/''" using Cons.prems(3) q route_path_slash by auto
      then show False using Cons.prems(2) q True by force
    qed
    with True show ?thesis by (auto simp: mount_def split: option.splits)
  next
    case False
    with Cons show ?thesis by (auto simp: mount_def split: option.splits)
  qed
qed simp

lemma find_first_best:
  assumes "find P xs = Some x" "sorted_wrt R xs" "\<And>y. R y y" "q \<in> set xs" "P q"
  shows "R x q"
  using assms by (induction xs) (auto split: if_splits)

lemma route_prefixes_root:
  "route_prefixes ps uri_path = Some plan \<Longrightarrow> \<exists>p\<in>set ps. fp_root_id plan = px_root_id p"
  by (induction ps uri_path rule: route_prefixes.induct) (auto simp: native_plan_def split: if_splits option.splits)

context http_laws
begin

lemma probe_unavailable:
  "method = ''GET'' \<or> method = ''HEAD'' \<Longrightarrow>
     \<exists>r. fst (route_probe C kind False method router) = Some (Match_Probe r) \<and> rsp_status r = 503"
proof -
  have "hv_from_str C (to_decimal (length NOT_READY_BODY)) = Some (to_decimal (length NOT_READY_BODY))"
    by (rule from_str_visible) (rule visible_strings)
  then show "method = ''GET'' \<or> method = ''HEAD'' \<Longrightarrow>
     \<exists>r. fst (route_probe C kind False method router) = Some (Match_Probe r) \<and> rsp_status r = 503"
    by (auto simp: route_probe_def probe_response_def Let_def)
qed

end

section \<open>Draining\<close>

definition readiness_routes :: "(string \<times> exact_route) list \<Rightarrow> nat set" where
  "readiness_routes exact = {lease. Exact_Readiness lease \<in> snd ` set exact}"

lemma begin_draining_run:
  "readiness_step\<^sup>*\<^sup>* w (w\<lparr> rw_cells := rd_cells (router_begin_draining exact (rw_state w)) \<rparr>)"
proof (induction exact arbitrary: w)
  case Nil
  show ?case by simp
next
  case (Cons e exact)
  obtain at r where e: "e = (at, r)" by (cases e)
  show ?case
  proof (cases "\<exists>h. r = Exact_Readiness h")
    case True
    then obtain h where h: "r = Exact_Readiness h" by blast
    let ?w = "w\<lparr> rw_cells := rd_cells (lease_begin_stopping h (rw_state w)) \<rparr>"
    have st: "rw_state ?w = lease_begin_stopping h (rw_state w)"
      using lease_begin_stopping_cells [of h "rw_state w"] by (simp add: rw_state_def)
    have "readiness_step w ?w" by (rule rs_stop)
    also have "readiness_step\<^sup>*\<^sup>* ?w (?w\<lparr> rw_cells := rd_cells (router_begin_draining exact (rw_state ?w)) \<rparr>)"
      by (rule Cons.IH)
    finally (converse_rtranclp_into_rtranclp) show ?thesis by (simp add: e h st)
  next
    case False
    then show ?thesis using Cons.IH [of w] e by (cases r) simp_all
  qed
qed

lemma router_draining_cells:
  "rd_gates (router_begin_draining exact R) = rd_gates R \<and>
   length (rd_cells (router_begin_draining exact R)) = length (rd_cells R) \<and>
   (\<forall>c<length (rd_cells R). rd_cells R ! c = STOPPING \<longrightarrow> rd_cells (router_begin_draining exact R) ! c = STOPPING)"
proof (induction exact R rule: router_begin_draining.induct)
  case (2 at r rest R)
  then show ?case using lease_begin_stopping_cells by (cases r) auto
qed simp

lemma router_draining_stops:
  assumes "lease \<in> readiness_routes exact" "gate_ref R lease = Inr c" "c < length (rd_cells R)"
  shows "rd_cells (router_begin_draining exact R) ! c = STOPPING"
  using assms
proof (induction exact R rule: router_begin_draining.induct)
  case (2 at r rest R)
  show ?case
  proof (cases "r = Exact_Readiness lease")
    case True
    let ?R = "lease_begin_stopping lease R"
    have "rd_cells ?R ! c = STOPPING" "c < length (rd_cells ?R)"
      using 2(3,4) by (simp_all add: lease_begin_stopping_def gate_begin_stopping_def)
    with router_draining_cells [of rest ?R] True show ?thesis by simp
  next
    case False
    let ?R = "case r of Exact_Readiness h \<Rightarrow> lease_begin_stopping h R | _ \<Rightarrow> R"
    have l: "lease \<in> readiness_routes rest" using 2(2) False by (auto simp: readiness_routes_def)
    have "rd_gates ?R = rd_gates R" "length (rd_cells ?R) = length (rd_cells R)"
      using lease_begin_stopping_cells by (cases r; simp)+
    with 2 l show ?thesis by (simp add: gate_ref_def)
  qed
qed (simp add: readiness_routes_def)

section \<open>Properties\<close>



text \<open>C37: after draining has begun no readiness probe reports the server as ready.  From any
  reachable state of the readiness gates, once \<open>begin_draining\<close> has gone over the routes, a
  GET or HEAD on a readiness route whose lease is still held is answered with 503, whatever the
  application and the resource heap do meanwhile.\<close>

theorem draining_probes_unavailable:
  assumes "http_laws C" "readiness_gates start stride = Some s" "stride > TOKEN_OFFSET"
    and "readiness_step\<^sup>*\<^sup>* (readiness_start s) w" "handle_held (rw_heap w) lease"
    and "map_of (nr_exact router) path = Some (Exact_Readiness lease)"
    and "nr_exact router' = nr_exact router"
    and "w1 = w\<lparr> rw_cells := rd_cells (router_begin_draining (nr_exact router) (rw_state w)) \<rparr>"
    and "(\<lambda>w w'. readiness_step w w' \<and> handle_held (rw_heap w') lease)\<^sup>*\<^sup>* w1 w2"
    and "method = ''GET'' \<or> method = ''HEAD''"
  shows "\<exists>r :: ('h, 'b) server_response.
    fst (route C (rw_state w2) path method router') = Some (Match_Probe r) \<and> rsp_status r = 503"
proof -
  have ok: "readiness_ok w" by (rule readiness_reachable_ok [OF assms(2-4)])
  from held_cell [OF ok assms(5)] obtain c where c: "gate_ref (rw_state w) lease = Inr c" "c < length (rw_cells w)" .
  have l: "lease \<in> readiness_routes (nr_exact router)"
    using map_of_SomeD [OF assms(6)] by (force simp: readiness_routes_def)
  have "readiness_step\<^sup>*\<^sup>* (readiness_start s) w1"
    using assms(4) begin_draining_run [of w "nr_exact router"] unfolding assms(8) by (rule rtranclp_trans)
  then have ok1: "readiness_ok w1" by (rule readiness_reachable_ok [OF assms(2,3)])
  have h1: "handle_held (rw_heap w1) lease" "gate_ref (rw_state w1) lease = Inr c"
    using assms(5) c unfolding assms(8) by (simp_all add: gate_ref_def)
  have c1: "c < length (rw_cells w1)" "rw_cells w1 ! c = STOPPING"
    using router_draining_stops [OF l c(1)] router_draining_cells [of "nr_exact router" "rw_state w"] c(2)
    unfolding assms(8) by simp_all
  have "\<not> lease_is_ready (rw_state w2) lease"
    using stopping_run [OF assms(9) ok1 h1 c1]
    by (simp add: lease_is_ready_def gate_is_ready_def STOPPING_def READY_def)
  with http_laws.probe_unavailable [OF assms(1,10)] assms(6,7) show ?thesis by (simp add: route_def)
qed

definition sample_files :: "unit file_service" where
  "sample_files = \<lparr> fs_roots = [''www'' \<mapsto> \<lparr> fr_handle = (), fr_cache = NoStore \<rparr>], fs_permits = 1, fs_chunk_bytes = 1 \<rparr>"

definition sample_specs :: "file_route_spec list" where
  "sample_specs =
     [\<lparr> frt_at = ''/'', frt_root_id = ''www'', frt_kind = Prefix, frt_relative = [], frt_cache = None \<rparr>,
      \<lparr> frt_at = ''/static'', frt_root_id = ''www'', frt_kind = Prefix, frt_relative = [], frt_cache = Some NoStore \<rparr>]"

definition sample_router :: native_router where
  "sample_router = \<lparr> nr_exact = [(''/live'', Exact_Liveness), (''/ready'', Exact_Readiness 4104)],
     nr_prefixes = [\<lparr> px_at = ''/static'', px_root_id = ''www'', px_cache = Some NoStore \<rparr>,
       \<lparr> px_at = ''/'', px_root_id = ''www'', px_cache = None \<rparr>],
     nr_probes = zero_counters \<rparr>"

lemma sample_router_activates:
  "activate_router sample_files sample_specs [''/live''] [\<lparr> rrt_at = ''/ready'', rrt_readiness = 4104 \<rparr>] None = Inr sample_router"
  by code_simp



theorem draining_probes_unavailable_witness:
  "\<exists>w (r :: ((string \<times> string) list, unit) server_response). handle_held (rw_heap w) 4104 \<and>
     fst (route list_http (rw_state w) ''/ready'' ''GET'' sample_router) = Some (Match_Probe r) \<and> rsp_status r = 503"
proof -
  obtain s w where s: "readiness_gates 4096 24 = Some s" and r: "readiness_step\<^sup>*\<^sup>* (readiness_start s) w"
    and h: "handle_held (rw_heap w) 4104" by (rule sample_gate_world)
  let ?w = "w\<lparr> rw_cells := rd_cells (router_begin_draining (nr_exact sample_router) (rw_state w)) \<rparr>"
  have m: "map_of (nr_exact sample_router) ''/ready'' = Some (Exact_Readiness 4104)" by code_simp
  have t: "TOKEN_OFFSET < 24" by (simp add: TOKEN_OFFSET_def)
  from draining_probes_unavailable [OF list_http.http_laws_axioms s t r h m refl refl rtranclp.rtrancl_refl disjI1 [OF refl]]
  obtain r :: "((string \<times> string) list, unit) server_response" where
    "fst (route list_http (rw_state ?w) ''/ready'' ''GET'' sample_router) = Some (Match_Probe r)" "rsp_status r = 503" by blast
  moreover have "handle_held (rw_heap ?w) 4104" using h by simp
  ultimately show ?thesis by blast
qed

end
