(* ===== verification/Ip_Address.thy ===== *)
theory Ip_Address
  imports Prelude
begin

text \<open>
  \<open>std::net::Ipv6Addr::from_str\<close> of Rust's standard library, on which the request
  target validator relies for bracketed hosts.  The parser's cursor is the remaining text; a
  reader returns the value and the rest, or nothing with the cursor unmoved.  The result of a
  successful parse is the list of the eight 16-bit groups of the address.
\<close>

definition hex_value_of :: "char \<Rightarrow> nat" where
  "hex_value_of c =
     (if is_ascii_digit c then code c - 48
      else if 97 \<le> code c then code c - 87 else code c - 55)"

definition to_digit :: "nat \<Rightarrow> char \<Rightarrow> nat option" where
  "to_digit radix c =
     (if is_ascii_hexdigit c \<and> hex_value_of c < radix then Some (hex_value_of c) else None)"

definition digits_value :: "nat \<Rightarrow> string \<Rightarrow> nat" where
  "digits_value radix s = foldl (\<lambda>n c. radix * n + hex_value_of c) 0 s"

text \<open>
  \<open>Parser::read_number\<close>: the longest run of digits, refused when it is empty, longer
  than the allowed number of digits, larger than the type's maximum, or starts with a
  forbidden zero.
\<close>

definition read_number ::
  "nat \<Rightarrow> nat \<Rightarrow> bool \<Rightarrow> nat \<Rightarrow> string \<Rightarrow> (nat \<times> string) option" where
  "read_number radix max_digits allow_zero_prefix limit s =
     (let ds = takeWhile (\<lambda>c. to_digit radix c \<noteq> None) s in
      if ds = [] \<or> length ds > max_digits \<or> digits_value radix ds > limit \<or>
         (\<not> allow_zero_prefix \<and> hd ds = CHR ''0'' \<and> length ds > 1)
      then None else Some (digits_value radix ds, drop (length ds) s))"

definition read_given_char :: "char \<Rightarrow> string \<Rightarrow> string option" where
  "read_given_char c s = (case s of [] \<Rightarrow> None | x # r \<Rightarrow> if x = c then Some r else None)"

definition read_separator ::
  "char \<Rightarrow> nat \<Rightarrow> (string \<Rightarrow> ('a \<times> string) option) \<Rightarrow> string \<Rightarrow> ('a \<times> string) option" where
  "read_separator sep index inner s =
     (if index > 0
      then (case read_given_char sep s of None \<Rightarrow> None | Some r \<Rightarrow> inner r)
      else inner s)"

fun read_octets :: "nat \<Rightarrow> nat \<Rightarrow> string \<Rightarrow> (nat list \<times> string) option" where
  "read_octets 0 i s = Some ([], s)"
| "read_octets (Suc n) i s =
     (case read_separator CHR ''.'' i (read_number 10 3 False 255) s of
        None \<Rightarrow> None
      | Some (b, r) \<Rightarrow>
          (case read_octets n (Suc i) r of None \<Rightarrow> None | Some (bs, r') \<Rightarrow> Some (b # bs, r')))"

definition read_ipv4_addr :: "string \<Rightarrow> (nat list \<times> string) option" where
  "read_ipv4_addr s = read_octets 4 0 s"

definition v4_groups :: "nat list \<Rightarrow> nat list" where
  "v4_groups bs = [256 * (bs ! 0) + bs ! 1, 256 * (bs ! 2) + bs ! 3]"

text \<open>
  \<open>read_groups n i\<close> fills the \<open>n\<close> slots that are left from slot \<open>i\<close>; the flag says
  that an embedded IPv4 address ended the groups.
\<close>

fun read_groups :: "nat \<Rightarrow> nat \<Rightarrow> string \<Rightarrow> nat list \<times> bool \<times> string" where
  "read_groups 0 i s = ([], False, s)"
| "read_groups (Suc n) i s =
     (case (if 0 < n then read_separator CHR '':'' i read_ipv4_addr s else None) of
        Some (bs, r) \<Rightarrow> (v4_groups bs, True, r)
      | None \<Rightarrow>
          (case read_separator CHR '':'' i (read_number 16 4 True 65535) s of
             None \<Rightarrow> ([], False, s)
           | Some (g, r) \<Rightarrow>
               (case read_groups n (Suc i) r of (gs, v4, r') \<Rightarrow> (g # gs, v4, r'))))"

definition read_ipv6_addr :: "string \<Rightarrow> (nat list \<times> string) option" where
  "read_ipv6_addr s =
     (case read_groups 8 0 s of (head, head_ipv4, r) \<Rightarrow>
        if length head = 8 then Some (head, r)
        else if head_ipv4 then None
        else (case read_given_char CHR '':'' r of None \<Rightarrow> None
              | Some r1 \<Rightarrow>
                  (case read_given_char CHR '':'' r1 of None \<Rightarrow> None
                   | Some r2 \<Rightarrow>
                       (case read_groups (8 - (length head + 1)) 0 r2 of (tail, _, r3) \<Rightarrow>
                          Some (head @ replicate (8 - length head - length tail) 0 @ tail, r3)))))"

definition ipv6_from_str :: "string \<Rightarrow> nat list option" where
  "ipv6_from_str s =
     (case read_ipv6_addr s of Some (a, []) \<Rightarrow> Some a | _ \<Rightarrow> None)"

section \<open>Lemmas\<close>

lemma read_number_bound: "read_number radix m z limit s = Some (v, r) \<Longrightarrow> v \<le> limit"
  by (auto simp: read_number_def Let_def split: if_splits)

lemma read_separator_inner:
  "read_separator sep i f s = Some (v, r) \<Longrightarrow> \<exists>s'. f s' = Some (v, r)"
  by (auto simp: read_separator_def split: if_splits option.splits)

lemma read_octets_length:
  "read_octets n i s = Some (bs, r) \<Longrightarrow> length bs = n \<and> (\<forall>b\<in>set bs. b \<le> 255)"
proof (induction n arbitrary: i s bs r)
  case (Suc n)
  then show ?case
    by (fastforce split: option.splits dest!: read_separator_inner read_number_bound)
qed auto

lemma v4_groups_bound:
  assumes "length bs = 4" "\<forall>b\<in>set bs. b \<le> 255"
  shows "\<forall>g\<in>set (v4_groups bs). g < 65536"
proof -
  from assms have "bs ! i \<le> 255" if "i < 4" for i using that by (simp add: nth_mem)
  from this [of 0] this [of 1] this [of 2] this [of 3] show ?thesis by (simp add: v4_groups_def)
qed

lemma read_groups_bound:
  "read_groups n i s = (gs, f, r) \<Longrightarrow> length gs \<le> n \<and> (\<forall>g\<in>set gs. g < 65536)"
proof (induction n arbitrary: i s gs f r)
  case (Suc n)
  let ?v4 = "if 0 < n then read_separator CHR '':'' i read_ipv4_addr s else None"
  show ?case
  proof (cases ?v4)
    case None
    then show ?thesis
      using Suc by (auto split: option.splits prod.splits if_splits
          dest!: read_separator_inner read_number_bound)
  next
    case (Some a)
    then obtain bs r' where a: "?v4 = Some (bs, r')" by (cases a) auto
    then have "length bs = 4" "\<forall>b\<in>set bs. b \<le> 255"
      by (auto simp: read_ipv4_addr_def dest!: read_separator_inner read_octets_length
          split: if_splits)
    with v4_groups_bound [of bs] a Suc.prems show ?thesis
      by (auto simp: v4_groups_def split: if_splits)
  qed
qed auto

lemma ipv6_from_str_groups:
  assumes "ipv6_from_str s = Some a"
  shows "length a = 8 \<and> (\<forall>g\<in>set a. g < 65536)"
proof -
  obtain head v4 r where h: "read_groups 8 0 s = (head, v4, r)" by (metis prod_cases3)
  note hb = read_groups_bound [OF h]
  have tb: "length t \<le> 7 - length head \<and> (\<forall>g\<in>set t. g < 65536)"
    if "read_groups (7 - length head) 0 r2 = (t, f, r3)" for r2 t f r3
    using read_groups_bound [OF that] by simp
  from assms h hb show ?thesis
    by (auto simp: ipv6_from_str_def read_ipv6_addr_def
        split: option.splits if_splits prod.splits list.splits dest!: tb)
qed

definition v6_char :: "char \<Rightarrow> bool" where
  "v6_char c = (is_ascii_hexdigit c \<or> c = CHR '':'' \<or> c = CHR ''.'')"

definition consumes :: "(string \<Rightarrow> ('a \<times> string) option) \<Rightarrow> bool" where
  "consumes f = (\<forall>s v r. f s = Some (v, r) \<longrightarrow> (\<exists>u. s = u @ r \<and> list_all v6_char u))"

lemma consumesI: "(\<And>s v r. f s = Some (v, r) \<Longrightarrow> \<exists>u. s = u @ r \<and> list_all v6_char u) \<Longrightarrow> consumes f"
  by (simp add: consumes_def)

lemma consumesD: "consumes f \<Longrightarrow> f s = Some (v, r) \<Longrightarrow> \<exists>u. s = u @ r \<and> list_all v6_char u"
  by (simp add: consumes_def)

lemma consumes_number: "consumes (read_number radix m z limit)"
proof (rule consumesI)
  fix s v r assume A: "read_number radix m z limit s = Some (v, r)"
  let ?d = "takeWhile (\<lambda>c. to_digit radix c \<noteq> None) s"
  have "list_all v6_char ?d"
    by (auto simp: list_all_iff v6_char_def to_digit_def dest!: set_takeWhileD split: if_splits)
  moreover have "r = drop (length ?d) s"
    using A by (auto simp: read_number_def Let_def split: if_splits)
  then have "s = ?d @ r" by (metis dropWhile_eq_drop takeWhile_dropWhile_id)
  ultimately show "\<exists>u. s = u @ r \<and> list_all v6_char u" by blast
qed

lemma consumes_separator:
  assumes "consumes f" "v6_char sep"
  shows "consumes (read_separator sep i f)"
proof (rule consumesI)
  fix s v r assume A: "read_separator sep i f s = Some (v, r)"
  show "\<exists>u. s = u @ r \<and> list_all v6_char u"
  proof (cases "i > 0")
    case False
    with A assms show ?thesis by (auto simp: read_separator_def dest: consumesD)
  next
    case True
    with A obtain t where t: "s = sep # t" "f t = Some (v, r)"
      by (auto simp: read_separator_def read_given_char_def split: option.splits list.splits if_splits)
    with assms consumesD [of f] obtain u where "t = u @ r" "list_all v6_char u" by blast
    with t assms show ?thesis by (intro exI [of _ "sep # u"]) simp
  qed
qed

lemma v6_char_sep [simp]: "v6_char CHR '':''" "v6_char CHR ''.''"
  by (simp_all add: v6_char_def)

lemma consumes_octets: "consumes (read_octets n i)"
proof (induction n arbitrary: i)
  case 0
  show ?case by (auto simp: consumes_def)
next
  case (Suc n)
  show ?case
  proof (rule consumesI)
    fix s v r assume "read_octets (Suc n) i s = Some (v, r)"
    then obtain b t bs where
      1: "read_separator CHR ''.'' i (read_number 10 3 False 255) s = Some (b, t)" and
      2: "read_octets n (Suc i) t = Some (bs, r)"
      by (auto split: option.splits)
    from consumesD [OF consumes_separator [OF consumes_number] 1]
    obtain u1 where "s = u1 @ t" "list_all v6_char u1" by auto
    moreover from consumesD [OF Suc.IH 2] obtain u2 where "t = u2 @ r" "list_all v6_char u2" by auto
    ultimately show "\<exists>u. s = u @ r \<and> list_all v6_char u"
      by (intro exI [of _ "u1 @ u2"]) simp
  qed
qed

lemma consumes_ipv4: "consumes read_ipv4_addr"
  using consumes_octets [of 4 0] by (simp add: consumes_def read_ipv4_addr_def)

lemma read_groups_consumes:
  "read_groups n i s = (gs, f, r) \<Longrightarrow> \<exists>u. s = u @ r \<and> list_all v6_char u"
proof (induction n arbitrary: i s gs f r)
  case 0
  then show ?case by auto
next
  case (Suc n)
  let ?v4 = "if 0 < n then read_separator CHR '':'' i read_ipv4_addr s else None"
  let ?g = "read_separator CHR '':'' i (read_number 16 4 True 65535) s"
  consider (v4) bs where "?v4 = Some (bs, r)"
    | (stop) "r = s"
    | (group) g t gs' where "?g = Some (g, t)" "read_groups n (Suc i) t = (gs', f, r)"
    using Suc.prems by (auto split: option.splits prod.splits if_splits)
  then show ?case
  proof cases
    case v4
    then have "read_separator CHR '':'' i read_ipv4_addr s = Some (bs, r)"
      by (simp split: if_splits)
    from consumesD [OF consumes_separator [OF consumes_ipv4] this] show ?thesis by simp
  next
    case stop
    then show ?thesis by auto
  next
    case group
    from consumesD [OF consumes_separator [OF consumes_number] group(1)]
    obtain u1 where "s = u1 @ t" "list_all v6_char u1" by auto
    moreover from Suc.IH [OF group(2)] obtain u2 where "t = u2 @ r" "list_all v6_char u2" by auto
    ultimately show ?thesis by (intro exI [of _ "u1 @ u2"]) simp
  qed
qed

lemma ipv6_from_str_chars:
  assumes "ipv6_from_str s = Some a"
  shows "list_all v6_char s"
proof -
  obtain hd v4 r where h: "read_groups 8 0 s = (hd, v4, r)" by (metis prod_cases3)
  from read_groups_consumes [OF h] obtain u where u: "s = u @ r" "list_all v6_char u" by auto
  show ?thesis
  proof (cases "length hd = 8")
    case True
    with assms h u show ?thesis
      by (auto simp: ipv6_from_str_def read_ipv6_addr_def split: list.splits)
  next
    case False
    with assms h obtain r2 tl f where
      "r = CHR '':'' # CHR '':'' # r2" "read_groups (7 - length hd) 0 r2 = (tl, f, [])"
      by (auto simp: ipv6_from_str_def read_ipv6_addr_def read_given_char_def
          split: option.splits list.splits if_splits prod.splits)
    with read_groups_consumes [of "7 - length hd" 0 r2] u show ?thesis by auto
  qed
qed

lemma read_number_Nil [simp]: "read_number radix m z limit [] = None"
  by (simp add: read_number_def)

lemma read_octets_Nil: "read_octets (Suc n) 0 [] = None"
  by (simp add: read_separator_def)

lemma read_ipv4_Nil [simp]: "read_ipv4_addr [] = None"
  using read_octets_Nil [of 3] by (simp add: read_ipv4_addr_def numeral_eq_Suc)

lemma read_groups_Nil [simp]: "read_groups n 0 [] = ([], False, [])"
  by (cases n) (simp_all add: read_separator_def)

lemma ipv6_from_str_Nil [simp]: "ipv6_from_str [] = None"
  by (simp add: ipv6_from_str_def read_ipv6_addr_def read_given_char_def)

lemma ipv6_from_str_not_Nil: "ipv6_from_str s = Some a \<Longrightarrow> s \<noteq> []"
  by (cases s) auto


lemma v6_char_specials: "\<not> v6_char CHR ''%''" "\<not> v6_char CHR ''v''" "\<not> v6_char CHR ''V''"
  by (simp_all add: v6_char_def ascii_defs code_def)

end
