(* ===== verification/Request_Target.thy ===== *)
theory Request_Target
  imports Http_Crate Ip_Address
begin

text \<open>
  \<open>src/src/request_target.rs\<close>: validation and classification of the control data of an
  inbound request (method, version, URI and Host field), done before native route selection
  and before Roc sees the request.  A \<open>&str\<close> slice at a byte index is \<open>take\<close> or
  \<open>drop\<close>; the places where the code calls \<open>expect\<close> return an option, so that
  \<open>None\<close> is the panic.
\<close>

section \<open>Data\<close>

datatype target_kind = Resource | Authority | Asterisk

datatype authority_source = Uri_Source | Host_Source

record parsed_authority =
  pa_source :: authority_source
  pa_host_end :: nat
  pa_port :: "nat option"

record parsed_host_header =
  ph_present :: bool
  ph_authority :: "parsed_authority option"

record request_metadata =
  rm_target :: target_kind
  rm_target_authority :: "parsed_authority option"
  rm_effective_authority :: "parsed_authority option"

record authority_view =
  av_host :: string
  av_port :: "nat option"

text \<open>
  \<open>Expect_Panic\<close> is not an error value of the code: it marks the branches in which an
  \<open>expect\<close> of \<open>ParsedAuthority::raw\<close> would panic.
\<close>

datatype invalid_request_target = InvalidRequestTarget | Expect_Panic

section \<open>URI component grammar\<close>

definition is_unreserved :: "char \<Rightarrow> bool" where
  "is_unreserved b = (is_ascii_alphanumeric b \<or> b \<in> {CHR ''-'', CHR ''.'', CHR ''_'', CHR ''~''})"

definition is_sub_delim :: "char \<Rightarrow> bool" where
  "is_sub_delim b =
     (b \<in> {CHR ''!'', CHR ''$'', CHR ''&'', CHR 0x27, CHR ''('', CHR '')'', CHR ''*'', CHR ''+'',
           CHR '','', CHR '';'', CHR ''=''})"

definition is_ipv_future_char :: "char \<Rightarrow> bool" where
  "is_ipv_future_char b = (is_unreserved b \<or> is_sub_delim b \<or> b = CHR '':'')"

fun validate_uri_component :: "string \<Rightarrow> bool \<Rightarrow> invalid_request_target + unit" where
  "validate_uri_component [] allow_sub_delims = Inr ()"
| "validate_uri_component (b # bs) allow_sub_delims =
     (if is_unreserved b \<or> (allow_sub_delims \<and> is_sub_delim b)
      then validate_uri_component bs allow_sub_delims
      else (case bs of
              h # l # r \<Rightarrow>
                if b = CHR ''%'' \<and> is_ascii_hexdigit h \<and> is_ascii_hexdigit l
                then validate_uri_component r allow_sub_delims
                else Inl InvalidRequestTarget
            | _ \<Rightarrow> Inl InvalidRequestTarget))"

definition validate_reg_name :: "string \<Rightarrow> invalid_request_target + unit" where
  "validate_reg_name host =
     (if host = [] then Inl InvalidRequestTarget else validate_uri_component host True)"

definition validate_ip_literal :: "string \<Rightarrow> invalid_request_target + unit" where
  "validate_ip_literal literal =
     (case option_or (strip_prefix literal ''v'') (strip_prefix literal ''V'') of
        Some rest \<Rightarrow>
          (case split_once CHR ''.'' rest of
             None \<Rightarrow> Inl InvalidRequestTarget
           | Some (ver, address) \<Rightarrow>
               if ver = [] \<or> \<not> list_all is_ascii_hexdigit ver \<or>
                  address = [] \<or> \<not> list_all is_ipv_future_char address
               then Inl InvalidRequestTarget else Inr ())
      | None \<Rightarrow>
          (case split_once_str ''%25'' literal of
             Some (address, zone) \<Rightarrow>
               (case ipv6_from_str address of
                  None \<Rightarrow> Inl InvalidRequestTarget
                | Some _ \<Rightarrow>
                    if zone = [] then Inl InvalidRequestTarget
                    else validate_uri_component zone False)
           | None \<Rightarrow>
               (case ipv6_from_str literal of
                  None \<Rightarrow> Inl InvalidRequestTarget
                | Some _ \<Rightarrow> Inr ())))"

section \<open>Authority\<close>

definition authority_host_end :: "string \<Rightarrow> invalid_request_target + nat" where
  "authority_host_end raw =
     (if starts_with raw ''['' then
        (case find_char CHR '']'' raw of
           None \<Rightarrow> Inl InvalidRequestTarget
         | Some close \<Rightarrow>
             bind_result (validate_ip_literal (drop 1 (take close raw))) (\<lambda>_. Inr (close + 1)))
      else
        (let end = unwrap_or (rfind_char CHR '':'' raw) (length raw) in
         bind_result (validate_reg_name (take end raw)) (\<lambda>_. Inr end)))"

definition authority_port :: "string \<Rightarrow> invalid_request_target + nat option" where
  "authority_port suffix =
     (if suffix = [] then Inr None
      else if starts_with suffix '':'' then
        (let digits = drop 1 suffix in
         if digits = [] then Inr None
         else if \<not> list_all is_ascii_digit digits then Inl InvalidRequestTarget
         else (case parse_u16 digits of
                 None \<Rightarrow> Inl InvalidRequestTarget
               | Some p \<Rightarrow> Inr (Some p)))
      else Inl InvalidRequestTarget)"

definition parse_authority ::
  "string \<Rightarrow> authority_source \<Rightarrow> invalid_request_target + parsed_authority" where
  "parse_authority raw source =
     (if raw = [] \<or> \<not> list_all is_ascii raw \<or> CHR ''@'' \<in> set raw
      then Inl InvalidRequestTarget
      else bind_result (authority_host_end raw) (\<lambda>host_end.
        if host_end = 0 then Inl InvalidRequestTarget
        else bind_result (authority_port (drop host_end raw)) (\<lambda>port.
          Inr \<lparr> pa_source = source, pa_host_end = host_end, pa_port = port \<rparr>)))"

definition parse_host_header ::
  "'h http_crate \<Rightarrow> 'h \<Rightarrow> invalid_request_target + parsed_host_header" where
  "parse_host_header C headers =
     (case hm_get_all C headers ''host'' of
        [] \<Rightarrow> Inr \<lparr> ph_present = False, ph_authority = None \<rparr>
      | [value] \<Rightarrow>
          (case hv_to_str C value of
             None \<Rightarrow> Inl InvalidRequestTarget
           | Some raw \<Rightarrow>
               if raw = [] then Inr \<lparr> ph_present = True, ph_authority = None \<rparr>
               else bind_result (parse_authority raw Host_Source) (\<lambda>a.
                 Inr \<lparr> ph_present = True, ph_authority = Some a \<rparr>))
      | _ \<Rightarrow> Inl InvalidRequestTarget)"

definition pa_raw :: "'h http_crate \<Rightarrow> parsed_authority \<Rightarrow> uri \<Rightarrow> 'h \<Rightarrow> string option" where
  "pa_raw C a u headers =
     (case pa_source a of
        Uri_Source \<Rightarrow> uri_authority u
      | Host_Source \<Rightarrow>
          (case hm_get C headers ''host'' of None \<Rightarrow> None | Some v \<Rightarrow> hv_to_str C v))"

definition pa_view ::
  "'h http_crate \<Rightarrow> parsed_authority \<Rightarrow> uri \<Rightarrow> 'h \<Rightarrow> authority_view option" where
  "pa_view C a u headers =
     (case pa_raw C a u headers of
        None \<Rightarrow> None
      | Some raw \<Rightarrow>
          if pa_host_end a \<le> length raw
          then Some \<lparr> av_host = take (pa_host_end a) raw, av_port = pa_port a \<rparr> else None)"

definition authorities_equal ::
  "'h http_crate \<Rightarrow> parsed_authority \<Rightarrow> parsed_authority \<Rightarrow> uri \<Rightarrow> 'h \<Rightarrow> bool option" where
  "authorities_equal C left right u headers =
     (case (pa_view C left u headers, pa_view C right u headers) of
        (Some l, Some r) \<Rightarrow>
          Some (eq_ignore_ascii_case (av_host l) (av_host r) \<and> av_port l = av_port r)
      | _ \<Rightarrow> None)"

section \<open>Target classification\<close>

definition classify_path :: "string \<Rightarrow> string \<Rightarrow> bool \<Rightarrow> invalid_request_target + target_kind" where
  "classify_path meth path refused =
     (if path = ''*'' then
        (if meth = ''OPTIONS'' then Inr Asterisk else Inl InvalidRequestTarget)
      else if refused \<or> \<not> starts_with path ''/'' then Inl InvalidRequestTarget
      else Inr Resource)"

definition classify_target ::
  "string \<Rightarrow> version \<Rightarrow> uri \<Rightarrow> invalid_request_target + target_kind" where
  "classify_target meth ver u =
     (if ver = HTTP_2 then
        (if meth = ''CONNECT'' then
           (if uri_scheme u = None \<and> uri_authority u \<noteq> None \<and> uri_path_and_query u = None
            then Inr Authority else Inl InvalidRequestTarget)
         else (case uri_path_and_query u of
                 None \<Rightarrow> Inl InvalidRequestTarget
               | Some pq \<Rightarrow> classify_path meth (pq_str pq) False))
      else if uri_scheme u \<noteq> None then
        (if meth \<noteq> ''CONNECT'' \<and> uri_authority u \<noteq> None
         then Inr Resource else Inl InvalidRequestTarget)
      else if uri_authority u \<noteq> None then
        (if meth = ''CONNECT'' \<and> uri_path_and_query u = None
         then Inr Authority else Inl InvalidRequestTarget)
      else (case uri_path_and_query u of
              None \<Rightarrow> Inl InvalidRequestTarget
            | Some pq \<Rightarrow> classify_path meth (pq_str pq) (meth = ''CONNECT'')))"

section \<open>Validation\<close>

definition parse_uri_authority ::
  "uri \<Rightarrow> invalid_request_target + parsed_authority option" where
  "parse_uri_authority u =
     (case uri_authority u of
        None \<Rightarrow> Inr None
      | Some a \<Rightarrow> bind_result (parse_authority a Uri_Source) (\<lambda>p. Inr (Some p)))"

definition choose_effective_authority ::
  "'h http_crate \<Rightarrow> version \<Rightarrow> uri \<Rightarrow> 'h \<Rightarrow> parsed_authority option \<Rightarrow> parsed_host_header \<Rightarrow>
     invalid_request_target + parsed_authority option" where
  "choose_effective_authority C ver u headers uri_auth host =
     (case ver of
        HTTP_11 \<Rightarrow>
          if \<not> ph_present host then Inl InvalidRequestTarget
          else Inr (option_or uri_auth (ph_authority host))
      | HTTP_2 \<Rightarrow>
          if ph_present host then
            (case (uri_auth, ph_authority host) of
               (Some ua, Some ha) \<Rightarrow>
                 (case authorities_equal C ua ha u headers of
                    None \<Rightarrow> Inl Expect_Panic
                  | Some False \<Rightarrow> Inl InvalidRequestTarget
                  | Some True \<Rightarrow> Inr (option_or uri_auth (ph_authority host)))
             | (Some _, None) \<Rightarrow> Inl InvalidRequestTarget
             | (None, _) \<Rightarrow> Inr (option_or uri_auth (ph_authority host)))
          else Inr (option_or uri_auth (ph_authority host))
      | HTTP_10 \<Rightarrow> Inr (option_or uri_auth (ph_authority host))
      | _ \<Rightarrow> Inl InvalidRequestTarget)"

definition validate_components ::
  "'h http_crate \<Rightarrow> string \<Rightarrow> version \<Rightarrow> uri \<Rightarrow> 'h \<Rightarrow>
     invalid_request_target + request_metadata" where
  "validate_components C meth ver u headers =
     bind_result (classify_target meth ver u) (\<lambda>target.
     bind_result (parse_uri_authority u) (\<lambda>uri_auth.
     bind_result (parse_host_header C headers) (\<lambda>host.
     bind_result (choose_effective_authority C ver u headers uri_auth host) (\<lambda>effective.
       let target_auth = (case target of Authority \<Rightarrow> uri_auth | _ \<Rightarrow> None) in
       if target = Authority \<and> target_auth = None then Inl InvalidRequestTarget
       else Inr \<lparr> rm_target = target, rm_target_authority = target_auth,
                  rm_effective_authority = effective \<rparr>))))"

definition validate_parts ::
  "'h http_crate \<Rightarrow> 'h request_head \<Rightarrow> invalid_request_target + request_metadata" where
  "validate_parts C parts =
     validate_components C (rq_method parts) (rq_version parts) (rq_uri parts) (rq_headers parts)"

section \<open>Views of validated metadata\<close>

definition resource_path :: "request_metadata \<Rightarrow> uri \<Rightarrow> string option" where
  "resource_path m u =
     (if rm_target m \<noteq> Resource then None
      else Some (case uri_path_and_query u of None \<Rightarrow> ''/'' | Some pq \<Rightarrow> pq_path pq))"

definition resource_query :: "request_metadata \<Rightarrow> uri \<Rightarrow> string option" where
  "resource_query m u = (if rm_target m \<noteq> Resource then None else uri_query u)"

definition normalized_target_len :: "request_metadata \<Rightarrow> uri \<Rightarrow> nat option" where
  "normalized_target_len m u =
     (case rm_target m of
        Resource \<Rightarrow> Some (case uri_path_and_query u of None \<Rightarrow> 1 | Some pq \<Rightarrow> length (pq_str pq))
      | Authority \<Rightarrow> map_option length (uri_authority u)
      | Asterisk \<Rightarrow> Some 1)"

text \<open>
  The outer option is the code's \<open>Option\<close>, the inner one is \<open>None\<close> when an
  \<open>expect\<close> of \<open>raw\<close> panics.
\<close>

definition target_authority_view ::
  "'h http_crate \<Rightarrow> request_metadata \<Rightarrow> uri \<Rightarrow> 'h \<Rightarrow> authority_view option option" where
  "target_authority_view C m u headers =
     map_option (\<lambda>a. pa_view C a u headers) (rm_target_authority m)"

definition effective_authority_view ::
  "'h http_crate \<Rightarrow> request_metadata \<Rightarrow> uri \<Rightarrow> 'h \<Rightarrow> authority_view option option" where
  "effective_authority_view C m u headers =
     map_option (\<lambda>a. pa_view C a u headers) (rm_effective_authority m)"

section \<open>The grammar of an authority\<close>

inductive uri_component :: "bool \<Rightarrow> string \<Rightarrow> bool" for sub_delims where
  uc_nil: "uri_component sub_delims []"
| uc_char: "is_unreserved b \<or> (sub_delims \<and> is_sub_delim b) \<Longrightarrow> uri_component sub_delims r \<Longrightarrow>
    uri_component sub_delims (b # r)"
| uc_pct: "is_ascii_hexdigit h \<Longrightarrow> is_ascii_hexdigit l \<Longrightarrow> uri_component sub_delims r \<Longrightarrow>
    uri_component sub_delims (CHR ''%'' # h # l # r)"

inductive ip_literal :: "string \<Rightarrow> bool" where
  il_future: "v \<in> {CHR ''v'', CHR ''V''} \<Longrightarrow> ver \<noteq> [] \<Longrightarrow> list_all is_ascii_hexdigit ver \<Longrightarrow>
    address \<noteq> [] \<Longrightarrow> list_all is_ipv_future_char address \<Longrightarrow>
    ip_literal (v # ver @ CHR ''.'' # address)"
| il_v6: "ipv6_from_str address \<noteq> None \<Longrightarrow> ip_literal address"
| il_zone: "ipv6_from_str address \<noteq> None \<Longrightarrow> zone \<noteq> [] \<Longrightarrow> uri_component False zone \<Longrightarrow>
    ip_literal (address @ ''%25'' @ zone)"

inductive authority_host :: "string \<Rightarrow> bool" where
  ah_name: "h \<noteq> [] \<Longrightarrow> uri_component True h \<Longrightarrow> authority_host h"
| ah_literal: "ip_literal l \<Longrightarrow> CHR '']'' \<notin> set l \<Longrightarrow> authority_host (CHR ''['' # l @ '']'')"

definition port_suffix :: "nat option \<Rightarrow> string \<Rightarrow> bool" where
  "port_suffix p s =
     (case p of
        None \<Rightarrow> s = [] \<or> s = '':''
      | Some n \<Rightarrow> n < 65536 \<and>
          (\<exists>ds. s = CHR '':'' # ds \<and> ds \<noteq> [] \<and> list_all is_ascii_digit ds \<and> decimal_value ds = n))"

lemma hexdigit_classes: "is_ascii_hexdigit c \<Longrightarrow> is_unreserved c"
  by (auto simp: is_unreserved_def ascii_defs)

lemma pct_not_unreserved: "\<not> is_unreserved CHR ''%''" "\<not> is_sub_delim CHR ''%''"
  by (simp_all add: is_unreserved_def is_sub_delim_def ascii_defs code_def)

lemma validate_uri_component_iff:
  "validate_uri_component s sub = Inr () \<longleftrightarrow> uri_component sub s"
proof
  show "validate_uri_component s sub = Inr () \<Longrightarrow> uri_component sub s"
    by (induction s sub rule: validate_uri_component.induct)
      (auto intro: uri_component.intros split: if_splits list.splits)
  show "uri_component sub s \<Longrightarrow> validate_uri_component s sub = Inr ()"
    by (induction rule: uri_component.induct) (auto simp: pct_not_unreserved)
qed

lemma uri_component_chars:
  "uri_component sub s \<Longrightarrow> c \<in> set s \<Longrightarrow> is_unreserved c \<or> is_sub_delim c \<or> c = CHR ''%''"
  by (induction rule: uri_component.induct) (auto simp: hexdigit_classes)

lemma host_specials:
  "\<not> (is_unreserved CHR '':'' \<or> is_sub_delim CHR '':'' \<or> CHR '':'' = CHR ''%'')"
  "\<not> (is_unreserved CHR ''['' \<or> is_sub_delim CHR ''['' \<or> CHR ''['' = CHR ''%'')"
  by (simp_all add: is_unreserved_def is_sub_delim_def ascii_defs code_def)

lemma uri_component_no_special:
  "uri_component sub s \<Longrightarrow> CHR '':'' \<notin> set s \<and> CHR ''['' \<notin> set s"
  using uri_component_chars host_specials by blast


lemma hexdigit_not_dot: "list_all is_ascii_hexdigit s \<Longrightarrow> CHR ''.'' \<notin> set s"
  by (auto simp: list_all_iff ascii_defs code_def)

lemma validate_ip_literal_v6:
  assumes "list_all v6_char s" "s \<noteq> []"
  shows "validate_ip_literal s = (if ipv6_from_str s = None then Inl InvalidRequestTarget else Inr ())"
    and "zone \<noteq> [] \<Longrightarrow> validate_ip_literal (s @ ''%25'' @ zone) =
      (if ipv6_from_str s = None then Inl InvalidRequestTarget else validate_uri_component zone False)"
proof -
  from assms obtain c r where c: "s = c # r" "v6_char c" by (cases s) auto
  then have v: "c \<noteq> CHR ''v''" "c \<noteq> CHR ''V''" using v6_char_specials by auto
  have pct: "CHR ''%'' \<notin> set s" using assms v6_char_specials by (auto simp: list_all_iff)
  have no: "option_or (strip_prefix t ''v'') (strip_prefix t ''V'') = None" if "hd t = c" for t
    using v that by (cases t) (auto simp: strip_prefix_char option_or_def)
  show "validate_ip_literal s = (if ipv6_from_str s = None then Inl InvalidRequestTarget else Inr ())"
    using no [of s] split_once_str_None [OF pct, of "''25''"] c
    by (auto simp: validate_ip_literal_def split: option.splits)
  have sp: "split_once_str ''%25'' (s @ ''%25'' @ zone) = Some (s, zone)"
    using split_once_str_append [of s "CHR ''%''" "''25''" zone] pct by fastforce
  show "zone \<noteq> [] \<Longrightarrow> validate_ip_literal (s @ ''%25'' @ zone) =
      (if ipv6_from_str s = None then Inl InvalidRequestTarget else validate_uri_component zone False)"
    using no [of "s @ ''%25'' @ zone"] sp c
    by (auto simp: validate_ip_literal_def split: option.splits)
qed

lemma validate_ip_literal_iff: "validate_ip_literal l = Inr () \<longleftrightarrow> ip_literal l"
proof
  assume A: "validate_ip_literal l = Inr ()"
  show "ip_literal l"
  proof (cases "option_or (strip_prefix l ''v'') (strip_prefix l ''V'')")
    case (Some rest)
    then obtain v where v: "v \<in> {CHR ''v'', CHR ''V''}" "l = v # rest"
      by (auto simp: option_or_def strip_prefix_char split: option.splits list.splits if_splits)
    with A Some obtain ver address where "split_once CHR ''.'' rest = Some (ver, address)"
      "ver \<noteq> []" "list_all is_ascii_hexdigit ver" "address \<noteq> []" "list_all is_ipv_future_char address"
      by (auto simp: validate_ip_literal_def split: option.splits if_splits)
    with v show ?thesis by (auto simp: split_once_Some intro: il_future)
  next
    case None
    with A show ?thesis
      by (auto simp: validate_ip_literal_def validate_uri_component_iff
          dest!: split_once_str_Some split: option.splits if_splits intro: il_v6 il_zone)
  qed
next
  assume "ip_literal l"
  then show "validate_ip_literal l = Inr ()"
  proof cases
    case (il_future v ver address)
    then have "split_once CHR ''.'' (ver @ CHR ''.'' # address) = Some (ver, address)"
      by (simp add: split_once_Some hexdigit_not_dot)
    with il_future show ?thesis
      by (auto simp: validate_ip_literal_def option_or_def strip_prefix_char)
  next
    case il_v6
    then show ?thesis
      using validate_ip_literal_v6(1) ipv6_from_str_chars ipv6_from_str_not_Nil by fastforce
  next
    case (il_zone address zone)
    then obtain a where a: "ipv6_from_str address = Some a" by auto
    show ?thesis
      using validate_ip_literal_v6(2) [OF ipv6_from_str_chars [OF a] ipv6_from_str_not_Nil [OF a]] il_zone
      by (simp add: validate_uri_component_iff)
  qed
qed

lemma digits_no_colon: "list_all is_ascii_digit ds \<Longrightarrow> CHR '':'' \<notin> set ds"
  by (auto simp: list_all_iff ascii_defs code_def)

lemma authority_port_iff: "authority_port s = Inr p \<longleftrightarrow> port_suffix p s"
proof (cases s)
  case Nil
  then show ?thesis by (auto simp: authority_port_def port_suffix_def split: option.splits)
next
  case (Cons c ds)
  show ?thesis
  proof (cases "c = CHR '':''")
    case False
    with Cons show ?thesis
      by (auto simp: authority_port_def port_suffix_def starts_with_char split: option.splits)
  next
    case True
    with Cons show ?thesis
      by (auto simp: authority_port_def port_suffix_def starts_with_char Let_def parse_uint_digits
          parse_digits_def split: option.splits if_splits)
  qed
qed

lemma port_suffix_shape: "port_suffix p s \<Longrightarrow> s = [] \<or> (\<exists>ds. s = CHR '':'' # ds \<and> CHR '':'' \<notin> set ds)"
  by (auto simp: port_suffix_def digits_no_colon split: option.splits)

lemma authority_host_not_Nil: "authority_host h \<Longrightarrow> h \<noteq> []"
  by (auto elim: authority_host.cases)

lemma authority_host_end_sound:
  assumes "authority_host_end raw = Inr e"
  shows "e \<le> length raw \<and> authority_host (take e raw)"
proof (cases "starts_with raw ''[''")
  case True
  then obtain t where raw: "raw = CHR ''['' # t" by (auto simp: starts_with_char)
  from assms True obtain i where i: "find_char CHR '']'' raw = Some i" "e = i + 1"
    "validate_ip_literal (drop 1 (take i raw)) = Inr ()"
    by (auto simp: authority_host_end_def split: option.splits)
  note f = find_char_Some [OF i(1)]
  with raw have "0 < i" by (cases i) auto
  then obtain j where j: "i = Suc j" by (cases i) auto
  have "take e raw = CHR ''['' # take j t @ '']''"
    using f raw j i(2) by (simp add: take_Suc_conv_app_nth)
  moreover have "CHR '']'' \<notin> set (take j t)" using f raw j by simp
  moreover have "ip_literal (take j t)" using i(3) raw j by (simp add: validate_ip_literal_iff)
  ultimately show ?thesis using f i(2) by (simp add: ah_literal)
next
  case False
  have "unwrap_or (rfind_char CHR '':'' raw) (length raw) \<le> length raw"
    by (auto simp: unwrap_or_def split: option.splits dest!: rfind_char_Some)
  with assms False show ?thesis
    by (auto simp: authority_host_end_def Let_def validate_reg_name_def validate_uri_component_iff
        split: if_splits intro: ah_name)
qed

lemma authority_host_end_complete:
  assumes "authority_host h" "suffix = [] \<or> (\<exists>ds. suffix = CHR '':'' # ds \<and> CHR '':'' \<notin> set ds)"
  shows "authority_host_end (h @ suffix) = Inr (length h)"
  using assms(1)
proof cases
  case ah_name
  then have h: "CHR '':'' \<notin> set h" "CHR ''['' \<notin> set h" using uri_component_no_special by blast+
  with ah_name have "\<not> starts_with (h @ suffix) ''[''" by (cases h) (auto simp: starts_with_char)
  moreover have "unwrap_or (rfind_char CHR '':'' (h @ suffix)) (length (h @ suffix)) = length h"
    using assms(2) h by (auto simp: rfind_char_append unwrap_or_def rfind_char_None [THEN iffD2])
  ultimately show ?thesis
    using ah_name by (simp add: authority_host_end_def validate_reg_name_def validate_uri_component_iff)
next
  case (ah_literal l)
  have "find_char CHR '']'' ((CHR ''['' # l) @ CHR '']'' # suffix) = Some (length (CHR ''['' # l))"
    by (rule find_char_append) (use ah_literal in auto)
  with ah_literal show ?thesis
    by (simp add: authority_host_end_def starts_with_char validate_ip_literal_iff [THEN iffD2])
qed

lemma parse_authority_iff:
  "parse_authority raw src = Inr pa \<longleftrightarrow>
     list_all is_ascii raw \<and> CHR ''@'' \<notin> set raw \<and>
     (\<exists>host suffix. raw = host @ suffix \<and> authority_host host \<and> port_suffix (pa_port pa) suffix \<and>
        pa = \<lparr> pa_source = src, pa_host_end = length host, pa_port = pa_port pa \<rparr>)"
  (is "?L \<longleftrightarrow> ?R")
proof
  assume ?L
  then obtain e p where e: "authority_host_end raw = Inr e" "authority_port (drop e raw) = Inr p"
    and pa: "pa = \<lparr> pa_source = src, pa_host_end = e, pa_port = p \<rparr>"
    and "list_all is_ascii raw" "CHR ''@'' \<notin> set raw"
    by (auto simp: parse_authority_def split: if_splits)
  moreover from authority_host_end_sound [OF e(1)]
  have "raw = take e raw @ drop e raw" "authority_host (take e raw)" "length (take e raw) = e" by auto
  moreover from e(2) have "port_suffix p (drop e raw)" by (simp add: authority_port_iff)
  ultimately show ?R by (metis parsed_authority.select_convs(3))
next
  assume ?R
  then obtain host suffix where R: "list_all is_ascii raw" "CHR ''@'' \<notin> set raw"
    "raw = host @ suffix" "authority_host host" "port_suffix (pa_port pa) suffix"
    "pa = \<lparr> pa_source = src, pa_host_end = length host, pa_port = pa_port pa \<rparr>" by blast
  then have "authority_host_end raw = Inr (length host)"
    using authority_host_end_complete port_suffix_shape by blast
  moreover have "authority_port suffix = Inr (pa_port pa)" using R by (simp add: authority_port_iff)
  ultimately show ?L
    using R authority_host_not_Nil [of host] by (auto simp: parse_authority_def)
qed

lemma classify_no_panic: "classify_target meth ver u \<noteq> Inl Expect_Panic"
  by (auto simp: classify_target_def classify_path_def split: if_splits option.splits)

lemma validate_uri_component_no_panic: "validate_uri_component s b \<noteq> Inl Expect_Panic"
  by (induction s b rule: validate_uri_component.induct) (auto split: list.splits)

lemma validate_ip_literal_no_panic: "validate_ip_literal s \<noteq> Inl Expect_Panic"
  using validate_uri_component_no_panic
  by (auto simp: validate_ip_literal_def split: option.split)

lemma validate_reg_name_no_panic: "validate_reg_name s \<noteq> Inl Expect_Panic"
  using validate_uri_component_no_panic by (simp add: validate_reg_name_def)

lemma authority_host_end_no_panic: "authority_host_end s \<noteq> Inl Expect_Panic"
  using validate_ip_literal_no_panic validate_reg_name_no_panic
  by (simp add: authority_host_end_def bind_result_eq_Inl Let_def split: option.split)

lemma authority_port_no_panic: "authority_port s \<noteq> Inl Expect_Panic"
  by (simp add: authority_port_def Let_def split: option.split)

lemma parse_authority_no_panic: "parse_authority raw src \<noteq> Inl Expect_Panic"
  using authority_host_end_no_panic authority_port_no_panic
  by (simp add: parse_authority_def bind_result_eq_Inl)

text \<open>What an accepted authority view shows: a host of the grammar and a 16-bit port.\<close>

definition view_of :: "string \<Rightarrow> authority_view \<Rightarrow> bool" where
  "view_of raw v =
     (authority_host (av_host v) \<and> (\<exists>suffix. raw = av_host v @ suffix \<and> port_suffix (av_port v) suffix))"

lemma parse_authority_view:
  assumes "parse_authority raw src = Inr pa"
  shows "pa_source pa = src" "pa_host_end pa \<le> length raw"
    "view_of raw \<lparr> av_host = take (pa_host_end pa) raw, av_port = pa_port pa \<rparr>"
proof -
  from assms obtain host suffix where h: "raw = host @ suffix" "authority_host host"
    "port_suffix (pa_port pa) suffix"
    and pa: "pa = \<lparr> pa_source = src, pa_host_end = length host, pa_port = pa_port pa \<rparr>"
    unfolding parse_authority_iff by blast
  from pa have e: "pa_host_end pa = length host" "pa_source pa = src"
    by (metis parsed_authority.select_convs)+
  show "pa_source pa = src" by (rule e(2))
  show "pa_host_end pa \<le> length raw" using h e by simp
  show "view_of raw \<lparr> av_host = take (pa_host_end pa) raw, av_port = pa_port pa \<rparr>"
    using h e by (simp add: view_of_def)
qed

lemma classify_target_Inr:
  assumes "classify_target meth ver u = Inr t"
  shows "(t = Authority \<longleftrightarrow> meth = ''CONNECT'') \<and> (t = Asterisk \<longrightarrow> meth = ''OPTIONS'') \<and>
    (t = Authority \<longrightarrow> uri_authority u \<noteq> None)"
  using assms by (auto simp: classify_target_def classify_path_def split: if_splits option.splits)

context http_laws
begin

lemma parse_host_header_cases:
  assumes "parse_host_header C headers = Inr ph"
  obtains (absent) "hm_get_all C headers ''host'' = []" "\<not> ph_present ph" "ph_authority ph = None"
  | (empty) "hm_get_all C headers ''host'' = [[]]" "ph_present ph" "ph_authority ph = None"
  | (given) raw a where "hm_get_all C headers ''host'' = [raw]" "raw \<noteq> []" "ph_present ph"
      "ph_authority ph = Some a" "hv_to_str C raw = Some raw" "parse_authority raw Host_Source = Inr a"
proof (cases "hm_get_all C headers ''host''" rule: remdups_adj.cases)
  case 1
  with assms show ?thesis by (auto simp: parse_host_header_def intro: absent)
next
  case (2 v)
  with assms show ?thesis
    using to_str_same [of v] by (cases "hv_to_str C v")
      (auto simp: parse_host_header_def split: if_splits intro: empty given)
next
  case (3 v w vs)
  with assms show ?thesis by (simp add: parse_host_header_def)
qed

lemma uri_view:
  assumes "uri_authority u = Some raw" "parse_authority raw Uri_Source = Inr pa"
  shows "\<exists>v. pa_view C pa u headers = Some v \<and> view_of raw v"
  using assms parse_authority_view [OF assms(2)] by (auto simp: pa_view_def pa_raw_def)

lemma host_view:
  assumes "hm_get_all C headers ''host'' = [raw]" "hv_to_str C raw = Some raw"
    "parse_authority raw Host_Source = Inr pa"
  shows "\<exists>v. pa_view C pa u headers = Some v \<and> view_of raw v"
  using assms parse_authority_view [OF assms(3)] by (auto simp: pa_view_def pa_raw_def get_first)

lemma parse_uri_authority_cases:
  assumes "parse_uri_authority u = Inr ua"
  obtains (none) "uri_authority u = None" "ua = None"
  | (some) raw a where "uri_authority u = Some raw" "parse_authority raw Uri_Source = Inr a" "ua = Some a"
  using assms by (auto simp: parse_uri_authority_def split: option.splits)

lemma validate_components_cases:
  assumes "validate_components C meth ver u headers = Inr m"
  obtains ua ph where "classify_target meth ver u = Inr (rm_target m)"
    "parse_uri_authority u = Inr ua" "parse_host_header C headers = Inr ph"
    "choose_effective_authority C ver u headers ua ph = Inr (rm_effective_authority m)"
    "rm_target_authority m = (if rm_target m = Authority then ua else None)"
    "rm_effective_authority m = option_or ua (ph_authority ph)"
proof -
  from assms obtain t ua ph where *: "classify_target meth ver u = Inr t"
    "parse_uri_authority u = Inr ua" "parse_host_header C headers = Inr ph"
    "choose_effective_authority C ver u headers ua ph = Inr (rm_effective_authority m)"
    "rm_target m = t" "rm_target_authority m = (if t = Authority then ua else None)"
    by (auto simp: validate_components_def Let_def split: if_splits target_kind.splits)
  moreover from *(4) have "rm_effective_authority m = option_or ua (ph_authority ph)"
    by (auto simp: choose_effective_authority_def
        split: version.splits if_splits option.splits bool.splits)
  ultimately show ?thesis using that by simp
qed

lemma choose_no_panic:
  assumes "parse_uri_authority u = Inr ua" "parse_host_header C headers = Inr ph"
  shows "choose_effective_authority C ver u headers ua ph \<noteq> Inl Expect_Panic"
proof (cases "ua = None \<or> ph_authority ph = None")
  case True
  then show ?thesis
    by (auto simp: choose_effective_authority_def split: version.splits option.splits)
next
  case False
  then obtain a b where ab: "ua = Some a" "ph_authority ph = Some b" by auto
  from assms(1) ab have "\<exists>va. pa_view C a u headers = Some va"
    using uri_view by (elim parse_uri_authority_cases) fastforce+
  moreover from assms(2) ab have "\<exists>vb. pa_view C b u headers = Some vb"
    using host_view by (elim parse_host_header_cases) fastforce+
  ultimately show ?thesis
    by (auto simp: choose_effective_authority_def authorities_equal_def ab
        split: version.splits option.splits bool.splits)
qed

lemma parse_uri_authority_no_panic: "parse_uri_authority u \<noteq> Inl Expect_Panic"
  by (auto simp: parse_uri_authority_def bind_result_eq_Inl parse_authority_no_panic split: option.splits)

lemma parse_host_header_no_panic: "parse_host_header C headers \<noteq> Inl Expect_Panic"
  by (auto simp: parse_host_header_def bind_result_eq_Inl parse_authority_no_panic
      split: option.splits list.splits)

lemma validate_no_panic: "validate_components C meth ver u headers \<noteq> Inl Expect_Panic"
  using classify_no_panic parse_uri_authority_no_panic parse_host_header_no_panic choose_no_panic
  by (auto simp: validate_components_def bind_result_eq_Inl Let_def)

lemma authority_views:
  assumes "validate_components C meth ver u headers = Inr m"
  shows "effective_authority_view C m u headers = None \<longleftrightarrow>
      uri_authority u = None \<and> concat (hm_get_all C headers ''host'') = []"
    and "effective_authority_view C m u headers = Some r \<Longrightarrow>
      \<exists>v. r = Some v \<and>
        view_of (case uri_authority u of Some a \<Rightarrow> a | None \<Rightarrow> hd (hm_get_all C headers ''host'')) v"
    and "target_authority_view C m u headers =
      (if rm_target m = Authority then effective_authority_view C m u headers else None)"
proof -
  from assms obtain ua ph where ua: "parse_uri_authority u = Inr ua"
    and ph: "parse_host_header C headers = Inr ph"
    and c: "classify_target meth ver u = Inr (rm_target m)"
    and ta: "rm_target_authority m = (if rm_target m = Authority then ua else None)"
    and ea: "rm_effective_authority m = option_or ua (ph_authority ph)"
    by (rule validate_components_cases)
  show "effective_authority_view C m u headers = None \<longleftrightarrow>
      uri_authority u = None \<and> concat (hm_get_all C headers ''host'') = []"
    using ua ph by (auto simp: effective_authority_view_def ea option_or_def
        elim!: parse_uri_authority_cases parse_host_header_cases)
  show "effective_authority_view C m u headers = Some r \<Longrightarrow>
      \<exists>v. r = Some v \<and>
        view_of (case uri_authority u of Some a \<Rightarrow> a | None \<Rightarrow> hd (hm_get_all C headers ''host'')) v"
    using ua ph by (auto simp: effective_authority_view_def ea option_or_def
        elim!: parse_uri_authority_cases parse_host_header_cases intro: uri_view host_view)
  show "target_authority_view C m u headers =
      (if rm_target m = Authority then effective_authority_view C m u headers else None)"
    using ua classify_target_Inr [OF c]
    by (auto simp: target_authority_view_def effective_authority_view_def ta ea option_or_def
        elim!: parse_uri_authority_cases)
qed

lemma accepted_host_fields:
  assumes "validate_components C meth ver u headers = Inr m"
  shows "length (hm_get_all C headers ''host'') \<le> 1"
    and "ver = HTTP_11 \<Longrightarrow> length (hm_get_all C headers ''host'') = 1"
    and "ver \<in> {HTTP_10, HTTP_11, HTTP_2}"
proof -
  from assms obtain ua ph where ph: "parse_host_header C headers = Inr ph"
    and e: "choose_effective_authority C ver u headers ua ph = Inr (rm_effective_authority m)"
    by (rule validate_components_cases)
  from ph show "length (hm_get_all C headers ''host'') \<le> 1" by (auto elim!: parse_host_header_cases)
  show "ver \<in> {HTTP_10, HTTP_11, HTTP_2}"
    using e by (auto simp: choose_effective_authority_def split: version.splits)
  show "length (hm_get_all C headers ''host'') = 1" if "ver = HTTP_11"
    using e ph that by (auto simp: choose_effective_authority_def split: if_splits
        elim!: parse_host_header_cases)
qed

lemma http2_authorities_agree:
  assumes "validate_components C meth HTTP_2 u headers = Inr m" "uri_authority u = Some a"
    "hm_get_all C headers ''host'' = [b]"
  shows "\<exists>va vb. view_of a va \<and> view_of b vb \<and>
    eq_ignore_ascii_case (av_host va) (av_host vb) \<and> av_port va = av_port vb"
proof -
  from assms(1) obtain ua ph where ua: "parse_uri_authority u = Inr ua"
    and ph: "parse_host_header C headers = Inr ph"
    and e: "choose_effective_authority C HTTP_2 u headers ua ph = Inr (rm_effective_authority m)"
    by (rule validate_components_cases)
  from ua assms(2) obtain p where p: "ua = Some p" "parse_authority a Uri_Source = Inr p"
    by (auto elim: parse_uri_authority_cases)
  from uri_view [OF assms(2) p(2)] obtain va where va: "pa_view C p u headers = Some va" "view_of a va"
    by blast
  from ph show ?thesis
  proof (cases rule: parse_host_header_cases)
    case (given raw q)
    with assms(3) have "raw = b" by simp
    with given obtain vb where vb: "pa_view C q u headers = Some vb" "view_of b vb"
      using host_view [of headers b q u] by auto
    with e p given va show ?thesis
      by (auto simp: choose_effective_authority_def authorities_equal_def split: bool.splits)
  qed (use e p assms(3) in \<open>auto simp: choose_effective_authority_def\<close>)
qed

end

section \<open>Properties\<close>

text \<open>C13: a request whose control data is accepted has a version the server speaks and at most
  one Host field (exactly one for HTTP/1.1); its target is in authority form exactly when the
  method is CONNECT; and on HTTP/2 a Host field agrees with \<open>:authority\<close>, the hosts
  compared without case and the ports as numbers.\<close>

theorem accepted_request_control_data:
  assumes "http_laws C" "validate_components C meth ver u headers = Inr m"
  shows "ver \<in> {HTTP_10, HTTP_11, HTTP_2} \<and>
    length (hm_get_all C headers ''host'') \<le> 1 \<and>
    (ver = HTTP_11 \<longrightarrow> length (hm_get_all C headers ''host'') = 1) \<and>
    (rm_target m = Authority \<longleftrightarrow> meth = ''CONNECT'') \<and>
    (\<forall>a b. ver = HTTP_2 \<and> uri_authority u = Some a \<and> hm_get_all C headers ''host'' = [b] \<longrightarrow>
       (\<exists>va vb. view_of a va \<and> view_of b vb \<and>
          eq_ignore_ascii_case (av_host va) (av_host vb) \<and> av_port va = av_port vb))"
proof -
  from assms obtain "classify_target meth ver u = Inr (rm_target m)"
    by (auto elim: http_laws.validate_components_cases)
  then show ?thesis
    using assms http_laws.accepted_host_fields [OF assms] http_laws.http2_authorities_agree [OF assms(1)]
      classify_target_Inr by blast
qed

theorem accepted_request_control_data_witness:
  "length (hm_get_all list_http [(''host'', ''a.B:80'')] ''host'') \<le> 1 \<and>
   (\<exists>va vb. view_of ''A.b:80'' va \<and> view_of ''a.B:80'' vb \<and>
      eq_ignore_ascii_case (av_host va) (av_host vb) \<and> av_port va = av_port vb)"
proof -
  let ?u = "\<lparr> uri_scheme = Some ''https'', uri_authority = Some ''A.b:80'',
    uri_path_and_query = Some \<lparr> pq_str = ''/x'', pq_path = ''/x'', pq_query = None \<rparr> \<rparr>"
  have v: "validate_components list_http ''GET'' HTTP_2 ?u [(''host'', ''a.B:80'')] =
    Inr \<lparr> rm_target = Resource, rm_target_authority = None, rm_effective_authority =
      Some \<lparr> pa_source = Uri_Source, pa_host_end = 3, pa_port = Some 80 \<rparr> \<rparr>"
    by code_simp
  have "hm_get_all list_http [(''host'', ''a.B:80'')] ''host'' = [''a.B:80'']" by code_simp
  with accepted_request_control_data [OF list_http.http_laws_axioms v] show ?thesis by simp
qed

text \<open>C14: validation never panics, and for an accepted request neither do the views of its
  authorities: the effective authority is present exactly when the URI has an authority or the
  Host field is not empty, it denotes the URI's authority when there is one and the Host field
  otherwise (a host of the authority grammar and a 16-bit port), and the target authority is
  the effective one for authority-form targets and absent otherwise.\<close>

theorem authority_views_total:
  assumes "http_laws C"
  shows "validate_components C meth ver u headers \<noteq> Inl Expect_Panic \<and>
    (\<forall>m. validate_components C meth ver u headers = Inr m \<longrightarrow>
       normalized_target_len m u \<noteq> None \<and>
       (effective_authority_view C m u headers = None \<longleftrightarrow>
          uri_authority u = None \<and> concat (hm_get_all C headers ''host'') = []) \<and>
       (\<forall>r. effective_authority_view C m u headers = Some r \<longrightarrow>
          (\<exists>v. r = Some v \<and>
             view_of (case uri_authority u of Some a \<Rightarrow> a
                      | None \<Rightarrow> hd (hm_get_all C headers ''host'')) v)) \<and>
       target_authority_view C m u headers =
         (if rm_target m = Authority then effective_authority_view C m u headers else None))"
proof (intro conjI allI impI)
  show "validate_components C meth ver u headers \<noteq> Inl Expect_Panic"
    by (rule http_laws.validate_no_panic [OF assms])
  fix m assume v: "validate_components C meth ver u headers = Inr m"
  note views = http_laws.authority_views [OF assms v]
  show "effective_authority_view C m u headers = None \<longleftrightarrow>
      uri_authority u = None \<and> concat (hm_get_all C headers ''host'') = []"
    by (rule views(1))
  show "\<exists>w. r = Some w \<and> view_of (case uri_authority u of Some a \<Rightarrow> a
      | None \<Rightarrow> hd (hm_get_all C headers ''host'')) w"
    if "effective_authority_view C m u headers = Some r" for r
    using views(2) [OF that] .
  show "target_authority_view C m u headers =
      (if rm_target m = Authority then effective_authority_view C m u headers else None)"
    by (rule views(3))
  from v obtain "classify_target meth ver u = Inr (rm_target m)"
    by (auto elim: http_laws.validate_components_cases [OF assms])
  then show "normalized_target_len m u \<noteq> None"
    using classify_target_Inr by (auto simp: normalized_target_len_def split: target_kind.splits)
qed

theorem authority_views_total_witness:
  "effective_authority_view list_http
     \<lparr> rm_target = Resource, rm_target_authority = None, rm_effective_authority =
         Some \<lparr> pa_source = Host_Source, pa_host_end = 5, pa_port = Some 8000 \<rparr> \<rparr>
     \<lparr> uri_scheme = None, uri_authority = None, uri_path_and_query =
         Some \<lparr> pq_str = ''/x'', pq_path = ''/x'', pq_query = None \<rparr> \<rparr>
     [(''host'', ''[::1]:8000'')] \<noteq> Some None"
proof -
  let ?u = "\<lparr> uri_scheme = None, uri_authority = None,
    uri_path_and_query = Some \<lparr> pq_str = ''/x'', pq_path = ''/x'', pq_query = None \<rparr> \<rparr>"
  have v: "validate_components list_http ''GET'' HTTP_11 ?u [(''host'', ''[::1]:8000'')] =
    Inr \<lparr> rm_target = Resource, rm_target_authority = None, rm_effective_authority =
      Some \<lparr> pa_source = Host_Source, pa_host_end = 5, pa_port = Some 8000 \<rparr> \<rparr>"
    by code_simp
  show ?thesis
    using authority_views_total [OF list_http.http_laws_axioms, of "''GET''" HTTP_11 ?u
        "[(''host'', ''[::1]:8000'')]"] v
    by auto
qed

text \<open>C11: \<open>parse_authority\<close> accepts exactly the language of the authority grammar: ASCII
  text without \<open>@\<close> that is a host (a registered name of unreserved, sub-delimiter and
  percent-encoded characters, or a bracketed IPv6 address, zoned IPv6 address or IPvFuture
  literal) followed by nothing, a bare colon, or a colon and a decimal port below 65536, and it
  returns the end of that host and the value of that port.\<close>

theorem parse_authority_language:
  "parse_authority raw src = Inr pa \<longleftrightarrow>
     list_all is_ascii raw \<and> CHR ''@'' \<notin> set raw \<and>
     (\<exists>host suffix. raw = host @ suffix \<and> authority_host host \<and> port_suffix (pa_port pa) suffix \<and>
        pa = \<lparr> pa_source = src, pa_host_end = length host, pa_port = pa_port pa \<rparr>)"
  by (rule parse_authority_iff)

end
