(* ===== verification/Request_Limits.thy ===== *)
theory Request_Limits
  imports Request_Target
begin

text \<open>
  \<open>src/src/request_limits.rs\<close>: the limits on inbound request metadata, their validation
  at start-up, the exact check that admits a request, and the header-list size announced to
  HTTP/2 peers.  The configured values keep their Rust widths.
\<close>

definition DECODED_HEADER_FIELD_OVERHEAD :: nat where
  "DECODED_HEADER_FIELD_OVERHEAD = 32"

definition HARD_MAX_TARGET_BYTES :: nat where
  "HARD_MAX_TARGET_BYTES = 65535 - 1"

definition HARD_MAX_HEADER_LIST_BYTES :: nat where
  "HARD_MAX_HEADER_LIST_BYTES = 1024 * 1024"

definition HARD_MAX_HEADER_FIELDS :: nat where
  "HARD_MAX_HEADER_FIELDS = 1024"

definition HTTP1_MAX_HEAD_BYTES :: nat where
  "HTTP1_MAX_HEAD_BYTES = HARD_MAX_TARGET_BYTES + HARD_MAX_HEADER_LIST_BYTES + 8 * 1024"

definition HTTP2_PSEUDO_FIELD_ALLOWANCE_BYTES :: nat where
  "HTTP2_PSEUDO_FIELD_ALLOWANCE_BYTES = 8 * 1024"

lemmas limit_consts =
  DECODED_HEADER_FIELD_OVERHEAD_def HARD_MAX_TARGET_BYTES_def HARD_MAX_HEADER_LIST_BYTES_def
  HARD_MAX_HEADER_FIELDS_def HTTP1_MAX_HEAD_BYTES_def HTTP2_PSEUDO_FIELD_ALLOWANCE_BYTES_def

record request_metadata_limits =
  max_target_bytes :: nat
  max_header_list_bytes :: nat
  max_header_fields :: nat

datatype request_metadata_rejection =
  TargetTooLong nat
| HeadersTooLarge nat nat
| Target_Length_Panic

datatype limits_error =
  Target_Limit_Zero | Target_Limit_Too_Large | Header_Bytes_Zero | Header_Bytes_Too_Large
| Header_Fields_Zero | Header_Fields_Too_Large

definition new_limits ::
  "32 word \<Rightarrow> 32 word \<Rightarrow> 16 word \<Rightarrow> limits_error + request_metadata_limits" where
  "new_limits target_bytes header_list_bytes header_fields =
     (if unat target_bytes = 0 then Inl Target_Limit_Zero
      else if unat target_bytes > HARD_MAX_TARGET_BYTES then Inl Target_Limit_Too_Large
      else if unat header_list_bytes = 0 then Inl Header_Bytes_Zero
      else if unat header_list_bytes > HARD_MAX_HEADER_LIST_BYTES then Inl Header_Bytes_Too_Large
      else if unat header_fields = 0 then Inl Header_Fields_Zero
      else if unat header_fields > HARD_MAX_HEADER_FIELDS then Inl Header_Fields_Too_Large
      else Inr \<lparr> max_target_bytes = unat target_bytes,
                 max_header_list_bytes = unat header_list_bytes,
                 max_header_fields = unat header_fields \<rparr>)"

definition decoded_header_list_bytes :: "'h http_crate \<Rightarrow> 'h \<Rightarrow> nat" where
  "decoded_header_list_bytes C headers =
     foldl (\<lambda>total (name, value).
              saturating_add total (length name + length value + DECODED_HEADER_FIELD_OVERHEAD))
       0 (hm_iter C headers)"

definition admit_parts ::
  "'h http_crate \<Rightarrow> request_metadata_limits \<Rightarrow> 'h request_head \<Rightarrow> request_metadata \<Rightarrow>
     request_metadata_rejection + unit" where
  "admit_parts C l parts m =
     (case normalized_target_len m (rq_uri parts) of
        None \<Rightarrow> Inl Target_Length_Panic
      | Some n \<Rightarrow>
          if n > max_target_bytes l then Inl (TargetTooLong (max_target_bytes l))
          else if hm_len C (rq_headers parts) > max_header_fields l \<or>
             decoded_header_list_bytes C (rq_headers parts) > max_header_list_bytes l
          then Inl (HeadersTooLarge (max_header_list_bytes l) (max_header_fields l))
          else Inr ())"

definition http2_max_header_list_size :: "request_metadata_limits \<Rightarrow> 32 word option" where
  "http2_max_header_list_size l =
     (let limit = max_header_list_bytes l + max_target_bytes l +
        HTTP2_PSEUDO_FIELD_ALLOWANCE_BYTES + 1 in
      if limit < 2 ^ 32 then Some (word_of_nat limit) else None)"

section \<open>Lemmas\<close>

definition valid_limits :: "request_metadata_limits \<Rightarrow> bool" where
  "valid_limits l =
     (0 < max_target_bytes l \<and> max_target_bytes l \<le> HARD_MAX_TARGET_BYTES \<and>
      0 < max_header_list_bytes l \<and> max_header_list_bytes l \<le> HARD_MAX_HEADER_LIST_BYTES \<and>
      0 < max_header_fields l \<and> max_header_fields l \<le> HARD_MAX_HEADER_FIELDS)"

definition header_list_bytes :: "(string \<times> string) list \<Rightarrow> nat" where
  "header_list_bytes fs =
     sum_list (map (\<lambda>(name, value). length name + length value + DECODED_HEADER_FIELD_OVERHEAD) fs)"

text \<open>The bytes of an HTTP/1 request head on the wire, which Hyper's parser buffers.\<close>

definition http1_head_bytes :: "string \<Rightarrow> nat \<Rightarrow> (string \<times> string) list \<Rightarrow> nat" where
  "http1_head_bytes meth target_len fs =
     length meth + 1 + target_len + length '' HTTP/1.1'' + 2 +
     sum_list (map (\<lambda>(name, value). length name + 2 + length value + 2) fs) + 2"

lemma new_limits_valid: "new_limits t b f = Inr l \<Longrightarrow> valid_limits l"
  by (auto simp: new_limits_def valid_limits_def split: if_splits)

lemma foldl_saturating:
  "foldl (\<lambda>total (name, value). saturating_add total (f name value)) t fs =
     (if t \<le> u64_max then min (t + sum_list (map (\<lambda>(name, value). f name value) fs)) u64_max
      else if fs = [] then t else u64_max)"
  by (induction fs arbitrary: t) (auto simp: saturating_add_def)

lemma decoded_header_list_bytes_min:
  "decoded_header_list_bytes C headers = min (header_list_bytes (hm_iter C headers)) u64_max"
  unfolding decoded_header_list_bytes_def header_list_bytes_def foldl_saturating by simp

lemma admit_parts_iff:
  assumes "valid_limits l"
  shows "admit_parts C l parts m = Inr () \<longleftrightarrow>
    (\<exists>n. normalized_target_len m (rq_uri parts) = Some n \<and> n \<le> max_target_bytes l) \<and>
    hm_len C (rq_headers parts) \<le> max_header_fields l \<and>
    header_list_bytes (hm_iter C (rq_headers parts)) \<le> max_header_list_bytes l"
proof -
  have "max_header_list_bytes l < u64_max"
    using assms by (simp add: valid_limits_def limit_consts u64_max_def)
  then show ?thesis
    by (auto simp: admit_parts_def decoded_header_list_bytes_min split: option.splits)
qed

lemma field_wire_bytes:
  "sum_list (map (\<lambda>(name, value). length name + 2 + length value + 2) fs) \<le> header_list_bytes fs"
  by (induction fs) (auto simp: header_list_bytes_def DECODED_HEADER_FIELD_OVERHEAD_def)

section \<open>Properties\<close>



text \<open>The header-list size announced to HTTP/2 peers is computed without the
  \<open>expect\<close> failing and is not a wrapped value: it is exactly one more than the sum of the
  header and target limits and the pseudo-field allowance.\<close>

theorem http2_header_list_size_exact:
  assumes "new_limits t b f = Inr l"
  shows "\<exists>n. http2_max_header_list_size l = Some n \<and>
    unat n = max_header_list_bytes l + max_target_bytes l + 8193"
proof -
  let ?n = "max_header_list_bytes l + max_target_bytes l + 8193"
  from new_limits_valid [OF assms] have lt: "?n < 2 ^ 32"
    by (simp add: valid_limits_def limit_consts)
  have "max_header_list_bytes l + max_target_bytes l + HTTP2_PSEUDO_FIELD_ALLOWANCE_BYTES + 1 = ?n"
    by (simp add: limit_consts)
  then have "http2_max_header_list_size l = Some (word_of_nat ?n)"
    unfolding http2_max_header_list_size_def Let_def using lt by presburger
  moreover have "unat (word_of_nat ?n :: 32 word) = ?n"
    by (rule unat_word_of_nat_small) (use lt in simp)
  ultimately show ?thesis by blast
qed

theorem http2_header_list_size_exact_witness:
  "\<exists>n. http2_max_header_list_size
      \<lparr> max_target_bytes = 8192, max_header_list_bytes = 65536, max_header_fields = 128 \<rparr> = Some n \<and>
    unat n = 81921"
proof -
  have l: "new_limits 8192 65536 128 =
      Inr \<lparr> max_target_bytes = 8192, max_header_list_bytes = 65536, max_header_fields = 128 \<rparr>"
    by (simp add: new_limits_def limit_consts)
  show ?thesis using http2_header_list_size_exact [OF l] by simp
qed

end
