(* ===== verification/Shutdown.thy ===== *)
theory Shutdown
  imports Prelude
begin

text \<open>
  \<open>src/src/shutdown.rs\<close>: the first-cause-wins shutdown signal and the counter of request
  callbacks that draining waits for.  The watch channel and the notifier of \<open>tokio\<close> are
  parameters; the locales state what their documentation promises, and the two instances at the
  end of each section show that the promises can be kept.
\<close>

section \<open>The interface of tokio\<close>

text \<open>
  A watch channel keeps the latest value and a version that moves with every send, by which a
  receiver sees a change.
\<close>

record ('c, 'a) watch_crate =
  wc_channel :: "'a \<Rightarrow> 'c"
  wc_send_replace :: "'a \<Rightarrow> 'c \<Rightarrow> 'c"
  wc_borrow :: "'c \<Rightarrow> 'a"
  wc_version :: "'c \<Rightarrow> nat"

locale watch_laws =
  fixes W :: "('c, 'a) watch_crate"
  assumes borrow_channel: "wc_borrow W (wc_channel W a) = a"
    and borrow_send: "wc_borrow W (wc_send_replace W a c) = a"
    and send_changes: "wc_version W c < wc_version W (wc_send_replace W a c)"

text \<open>
  \<open>Notify\<close>: a future made by \<open>notified\<close> is completed by the next \<open>notify_waiters\<close>,
  even if it has not been polled yet, and stays complete.
\<close>

record ('n, 't) notify_crate =
  nc_new :: "'n"
  nc_notified :: "'n \<Rightarrow> 't"
  nc_notify_waiters :: "'n \<Rightarrow> 'n"
  nc_ready :: "'n \<Rightarrow> 't \<Rightarrow> bool"

locale notify_laws =
  fixes N :: "('n, 't) notify_crate"
  assumes notify_completes: "nc_ready N (nc_notify_waiters N n) (nc_notified N n)"
    and notify_keeps: "nc_ready N n t \<Longrightarrow> nc_ready N (nc_notify_waiters N n) t"

definition counting_watch :: "('a \<times> nat, 'a) watch_crate" where
  "counting_watch = \<lparr> wc_channel = (\<lambda>a. (a, 0)), wc_send_replace = (\<lambda>a c. (a, Suc (snd c))),
     wc_borrow = fst, wc_version = snd \<rparr>"

interpretation counting_watch: watch_laws counting_watch
  by unfold_locales (simp_all add: counting_watch_def)

definition counting_notify :: "(nat, nat) notify_crate" where
  "counting_notify = \<lparr> nc_new = 0, nc_notified = (\<lambda>n. n), nc_notify_waiters = Suc, nc_ready = (\<lambda>n t. t < n) \<rparr>"

interpretation counting_notify: notify_laws counting_notify
  by unfold_locales (simp_all add: counting_notify_def)

section \<open>The shutdown reason\<close>

datatype shutdown_reason =
  ApplicationRequested int | Interrupt | Terminate | StartupFailed string | RuntimeFailed string

definition i32_min :: int where
  "i32_min = - (2 ^ 31)"

definition i32_max :: int where
  "i32_max = 2 ^ 31 - 1"

definition exit_code_to_i32 :: "int \<Rightarrow> int" where
  "exit_code_to_i32 n =
     (if i32_min \<le> n \<and> n \<le> i32_max then n else if n < 0 then i32_min else i32_max)"

fun default_exit_code :: "shutdown_reason \<Rightarrow> int" where
  "default_exit_code (ApplicationRequested exit_code) = exit_code_to_i32 exit_code"
| "default_exit_code Interrupt = 130"
| "default_exit_code Terminate = 143"
| "default_exit_code (StartupFailed _) = 1"
| "default_exit_code (RuntimeFailed _) = 1"

section \<open>The controller\<close>

datatype shutdown_request = Started | AlreadyDraining

record 'c shutdown_controller =
  sd_reason :: "shutdown_reason option"
  sd_sender :: "'c"

definition new_controller :: "('c, shutdown_reason option) watch_crate \<Rightarrow> 'c shutdown_controller" where
  "new_controller W = \<lparr> sd_reason = None, sd_sender = wc_channel W None \<rparr>"

definition request_shutdown ::
  "('c, shutdown_reason option) watch_crate \<Rightarrow> shutdown_reason \<Rightarrow> 'c shutdown_controller \<Rightarrow>
     shutdown_request \<times> 'c shutdown_controller" where
  "request_shutdown W reason c =
     (case sd_reason c of
        Some _ \<Rightarrow> (AlreadyDraining, c)
      | None \<Rightarrow> (Started, c\<lparr> sd_reason := Some reason,
                    sd_sender := wc_send_replace W (Some reason) (sd_sender c) \<rparr>))"

text \<open>
  A task in \<open>requested\<close> has not begun, or is subscribed and has seen the channel at some
  version, or has returned.  One poll runs until it returns or awaits a change.
\<close>

datatype requested_task = Requested_New | Requested_Seen nat | Requested_Done shutdown_reason

definition check_channel ::
  "('c, shutdown_reason option) watch_crate \<Rightarrow> 'c shutdown_controller \<Rightarrow> requested_task" where
  "check_channel W c =
     (case wc_borrow W (sd_sender c) of
        Some reason \<Rightarrow> Requested_Done reason
      | None \<Rightarrow> Requested_Seen (wc_version W (sd_sender c)))"

definition poll_requested ::
  "('c, shutdown_reason option) watch_crate \<Rightarrow> 'c shutdown_controller \<Rightarrow> requested_task \<Rightarrow> requested_task" where
  "poll_requested W c t =
     (case t of
        Requested_New \<Rightarrow> (case sd_reason c of Some reason \<Rightarrow> Requested_Done reason | None \<Rightarrow> check_channel W c)
      | Requested_Seen v \<Rightarrow> if wc_version W (sd_sender c) = v then t else check_channel W c
      | Requested_Done _ \<Rightarrow> t)"

section \<open>The request tracker\<close>

record request_count =
  rc_accepting :: bool
  rc_active :: nat

record 'n request_tracker =
  rt_count :: request_count
  rt_idle :: "'n"

definition new_tracker :: "('n, 't) notify_crate \<Rightarrow> 'n request_tracker" where
  "new_tracker N = \<lparr> rt_count = \<lparr> rc_accepting = True, rc_active = 0 \<rparr>, rt_idle = nc_new N \<rparr>"

definition begin_request :: "'n request_tracker \<Rightarrow> bool \<times> 'n request_tracker" where
  "begin_request r =
     (if \<not> rc_accepting (rt_count r) then (False, r)
      else (True, r\<lparr> rt_count := (rt_count r)\<lparr> rc_active := rc_active (rt_count r) + 1 \<rparr> \<rparr>))"

definition begin_draining :: "('n, 't) notify_crate \<Rightarrow> 'n request_tracker \<Rightarrow> 'n request_tracker" where
  "begin_draining N r =
     (let count = (rt_count r)\<lparr> rc_accepting := False \<rparr> in
      \<lparr> rt_count = count,
        rt_idle = (if rc_active count = 0 then nc_notify_waiters N (rt_idle r) else rt_idle r) \<rparr>)"

definition drop_active_request :: "('n, 't) notify_crate \<Rightarrow> 'n request_tracker \<Rightarrow> 'n request_tracker" where
  "drop_active_request N r =
     (let count = (rt_count r)\<lparr> rc_active := rc_active (rt_count r) - 1 \<rparr> in
      \<lparr> rt_count = count,
        rt_idle = (if rc_active count = 0 then nc_notify_waiters N (rt_idle r) else rt_idle r) \<rparr>)"

text \<open>The three points at which a task in \<open>wait_for_idle\<close> can be interrupted.\<close>

datatype 't idle_task = Idle_Registered 't | Idle_Waiting 't | Idle_Returned

definition idle_register :: "('n, 't) notify_crate \<Rightarrow> 'n request_tracker \<Rightarrow> 't idle_task" where
  "idle_register N r = Idle_Registered (nc_notified N (rt_idle r))"

definition idle_check :: "'n request_tracker \<Rightarrow> 't \<Rightarrow> 't idle_task" where
  "idle_check r t = (if rc_active (rt_count r) = 0 then Idle_Returned else Idle_Waiting t)"

record ('n, 't) tracker_world =
  tw_tracker :: "'n request_tracker"
  tw_guards :: nat
  tw_tasks :: "nat \<Rightarrow> 't idle_task option"

definition tracker_start :: "('n, 't) notify_crate \<Rightarrow> ('n, 't) tracker_world" where
  "tracker_start N = \<lparr> tw_tracker = new_tracker N, tw_guards = 0, tw_tasks = Map.empty \<rparr>"

inductive tracker_step :: "('n, 't) notify_crate \<Rightarrow> ('n, 't) tracker_world \<Rightarrow> ('n, 't) tracker_world \<Rightarrow> bool"
  for N where
  ts_begin: "begin_request (tw_tracker w) = (True, r) \<Longrightarrow>
    tracker_step N w (w\<lparr> tw_tracker := r, tw_guards := tw_guards w + 1 \<rparr>)"
| ts_refused: "begin_request (tw_tracker w) = (False, r) \<Longrightarrow> tracker_step N w (w\<lparr> tw_tracker := r \<rparr>)"
| ts_drain: "tracker_step N w (w\<lparr> tw_tracker := begin_draining N (tw_tracker w) \<rparr>)"
| ts_drop: "tw_guards w > 0 \<Longrightarrow>
    tracker_step N w (w\<lparr> tw_tracker := drop_active_request N (tw_tracker w), tw_guards := tw_guards w - 1 \<rparr>)"
| ts_register: "tw_tasks w k = None \<Longrightarrow>
    tracker_step N w (w\<lparr> tw_tasks := (tw_tasks w)(k \<mapsto> idle_register N (tw_tracker w)) \<rparr>)"
| ts_check: "tw_tasks w k = Some (Idle_Registered t) \<Longrightarrow>
    tracker_step N w (w\<lparr> tw_tasks := (tw_tasks w)(k \<mapsto> idle_check (tw_tracker w) t) \<rparr>)"
| ts_wake: "tw_tasks w k = Some (Idle_Waiting t) \<Longrightarrow> nc_ready N (rt_idle (tw_tracker w)) t \<Longrightarrow>
    tracker_step N w (w\<lparr> tw_tasks := (tw_tasks w)(k \<mapsto> idle_register N (tw_tracker w)) \<rparr>)"

inductive_cases tracker_stepE: "tracker_step N w w'"

definition ticket_current :: "('n, 't) notify_crate \<Rightarrow> 'n \<Rightarrow> 't \<Rightarrow> bool" where
  "ticket_current N n t = (t = nc_notified N n \<or> nc_ready N n t)"

definition tracker_ok :: "('n, 't) notify_crate \<Rightarrow> ('n, 't) tracker_world \<Rightarrow> bool" where
  "tracker_ok N w =
     (rc_active (rt_count (tw_tracker w)) = tw_guards w \<and>
      (\<forall>k t. tw_tasks w k = Some (Idle_Registered t) \<longrightarrow> ticket_current N (rt_idle (tw_tracker w)) t) \<and>
      (\<forall>k t. tw_tasks w k = Some (Idle_Waiting t) \<longrightarrow>
         ticket_current N (rt_idle (tw_tracker w)) t \<and>
         (tw_guards w = 0 \<longrightarrow> nc_ready N (rt_idle (tw_tracker w)) t)))"

section \<open>Lemmas\<close>

lemmas tracker_defs = begin_request_def begin_draining_def drop_active_request_def
  idle_register_def idle_check_def Let_def

context notify_laws
begin

lemma ticket_notify: "ticket_current N n t \<Longrightarrow> nc_ready N (nc_notify_waiters N n) t"
  using notify_completes notify_keeps by (auto simp: ticket_current_def)

lemma ticket_kept: "ticket_current N n t \<Longrightarrow> ticket_current N (nc_notify_waiters N n) t"
  using ticket_notify by (simp add: ticket_current_def)

lemma ticket_new: "ticket_current N n (nc_notified N n)"
  by (simp add: ticket_current_def)

lemma tracker_step_ok:
  assumes "tracker_step N w w'" "tracker_ok N w"
  shows "tracker_ok N w'"
  using assms
proof (induction rule: tracker_step.induct)
  case (ts_begin w r)
  then show ?case by (auto simp: tracker_ok_def tracker_defs split: if_splits)
next
  case (ts_refused w r)
  then show ?case by (auto simp: tracker_ok_def tracker_defs split: if_splits)
next
  case (ts_drain w)
  then show ?case
    by (cases "tw_guards w = 0") (auto simp: tracker_ok_def tracker_defs intro: ticket_notify ticket_kept)
next
  case (ts_drop w)
  then show ?case
    by (cases "tw_guards w = 1") (auto simp: tracker_ok_def tracker_defs intro: ticket_notify ticket_kept)
next
  case (ts_register w k)
  then show ?case by (auto simp: tracker_ok_def tracker_defs ticket_new)
next
  case (ts_check w k t)
  then show ?case by (auto simp: tracker_ok_def tracker_defs)
next
  case (ts_wake w k t)
  then show ?case by (auto simp: tracker_ok_def tracker_defs ticket_new)
qed

lemma tracker_reachable_ok: "(tracker_step N)\<^sup>*\<^sup>* (tracker_start N) w \<Longrightarrow> tracker_ok N w"
proof (induction rule: rtranclp_induct)
  case base
  show ?case by (simp add: tracker_ok_def tracker_start_def new_tracker_def)
qed (rule tracker_step_ok)

end

lemma tracker_step_draining:
  "tracker_step N w w' \<Longrightarrow> \<not> rc_accepting (rt_count (tw_tracker w)) \<Longrightarrow>
     \<not> rc_accepting (rt_count (tw_tracker w')) \<and> tw_guards w' \<le> tw_guards w"
  by (erule tracker_stepE) (auto simp: tracker_defs split: if_splits)

lemma tracker_run_draining:
  "(tracker_step N)\<^sup>*\<^sup>* w w' \<Longrightarrow> \<not> rc_accepting (rt_count (tw_tracker w)) \<Longrightarrow>
     \<not> rc_accepting (rt_count (tw_tracker w')) \<and> tw_guards w' \<le> tw_guards w"
  by (induction rule: rtranclp_induct) (auto dest: tracker_step_draining)

definition request_all :: "('c, shutdown_reason option) watch_crate \<Rightarrow> shutdown_reason list \<Rightarrow>
    'c shutdown_controller \<Rightarrow> 'c shutdown_controller" where
  "request_all W rs c = foldl (\<lambda>c r. snd (request_shutdown W r c)) c rs"

lemma request_all_started:
  "sd_reason c = Some r \<Longrightarrow> request_all W rs c = c"
  by (induction rs) (simp_all add: request_all_def request_shutdown_def)

lemma exit_code_clamped:
  "i32_min \<le> exit_code_to_i32 n \<and> exit_code_to_i32 n \<le> i32_max \<and>
   exit_code_to_i32 n = max i32_min (min i32_max n) \<and>
   i32_min \<le> default_exit_code reason \<and> default_exit_code reason \<le> i32_max"
  by (cases reason) (auto simp: exit_code_to_i32_def i32_min_def i32_max_def)

section \<open>Properties\<close>

text \<open>C29: the first cause of a shutdown wins.  Whatever causes are requested after the first, only
  the first request is answered with \<open>Started\<close>, the controller keeps its reason, and a task
  that awaits the shutdown, at whatever point it subscribed before, returns that reason at its
  next poll.\<close>

theorem first_shutdown_cause_wins:
  assumes "watch_laws W"
    and "c = request_all W (r # rs) (new_controller W)"
    and "t = Requested_New \<or> t = Requested_Seen (wc_version W (sd_sender (new_controller W)))"
  shows "sd_reason c = Some r \<and>
    fst (request_shutdown W r (new_controller W)) = Started \<and>
    fst (request_shutdown W r' c) = AlreadyDraining \<and> snd (request_shutdown W r' c) = c \<and>
    poll_requested W c t = Requested_Done r"
proof -
  have c: "c = \<lparr> sd_reason = Some r, sd_sender = wc_send_replace W (Some r) (wc_channel W None) \<rparr>"
    using assms(2) request_all_started [of "snd (request_shutdown W r (new_controller W))" r W rs]
    by (simp add: request_all_def request_shutdown_def new_controller_def)
  have "wc_version W (wc_channel W None) < wc_version W (sd_sender c)"
    unfolding c using assms(1) by (simp add: watch_laws.send_changes)
  then show ?thesis
    using assms(1,3) by (auto simp: c request_shutdown_def new_controller_def poll_requested_def
        check_channel_def watch_laws.borrow_send)
qed

theorem first_shutdown_cause_wins_witness:
  "sd_reason (request_all counting_watch [Terminate, Interrupt] (new_controller counting_watch)) = Some Terminate"
  using first_shutdown_cause_wins [OF counting_watch.watch_laws_axioms refl disjI1 [OF refl],
      of Terminate "[Interrupt]"] by simp

text \<open>C10: draining waits for exactly the requests in flight and is never missed.  In every
  interleaving of request callbacks, draining and waiting tasks, the counter equals the number of
  live guards; once draining has begun no request is admitted any more and the number of guards
  only falls; and when no guard is left, every task that sleeps in \<open>wait_for_idle\<close> has been
  notified.\<close>

theorem tracker_draining_complete:
  assumes "notify_laws N" "(tracker_step N)\<^sup>*\<^sup>* (tracker_start N) w"
  shows "rc_active (rt_count (tw_tracker w)) = tw_guards w \<and>
    (tw_guards w = 0 \<longrightarrow> (\<forall>k t. tw_tasks w k = Some (Idle_Waiting t) \<longrightarrow>
       nc_ready N (rt_idle (tw_tracker w)) t)) \<and>
    (\<forall>w'. (tracker_step N)\<^sup>*\<^sup>* (w\<lparr> tw_tracker := begin_draining N (tw_tracker w) \<rparr>) w' \<longrightarrow>
       \<not> fst (begin_request (tw_tracker w')) \<and> tw_guards w' \<le> tw_guards w)"
proof -
  have "\<not> fst (begin_request (tw_tracker w')) \<and> tw_guards w' \<le> tw_guards w"
    if "(tracker_step N)\<^sup>*\<^sup>* (w\<lparr> tw_tracker := begin_draining N (tw_tracker w) \<rparr>) w'" for w'
    using tracker_run_draining [OF that] by (auto simp: begin_draining_def begin_request_def Let_def)
  with notify_laws.tracker_reachable_ok [OF assms] show ?thesis
    by (auto simp: tracker_ok_def)
qed

theorem tracker_draining_complete_witness:
  "\<exists>w. (tracker_step counting_notify)\<^sup>*\<^sup>* (tracker_start counting_notify) w \<and> tw_guards w = 1 \<and>
     rc_active (rt_count (tw_tracker w)) = 1"
proof -
  let ?s = "tracker_start counting_notify"
  let ?w = "?s\<lparr> tw_tracker := snd (begin_request (tw_tracker ?s)), tw_guards := tw_guards ?s + 1 \<rparr>"
  have s: "(tracker_step counting_notify)\<^sup>*\<^sup>* ?s ?w"
    by (rule r_into_rtranclp, rule ts_begin) (simp add: tracker_start_def new_tracker_def begin_request_def)
  have g: "tw_guards ?w = 1" by (simp add: tracker_start_def)
  from tracker_draining_complete [OF counting_notify.notify_laws_axioms s] s g show ?thesis by metis
qed

end
