(* ===== verification/Roc_Executor.thy ===== *)
theory Roc_Executor
  imports Admission
begin

text \<open>
  \<open>src/src/roc_executor.rs\<close>: the fixed pool of worker threads with a bounded queue.  The
  functions are the critical sections of the executor's mutex; the step relation interleaves
  submissions, cancellations, the workers' loops, retirements and stopping.  The world keeps two
  ghost lists, the accepted jobs that were not cancelled, in submission order, and the jobs the
  workers took, in the order they took them.
\<close>

datatype admission_class = Active | Queued

datatype submit_error = Full | Stopping

record 'j entry =
  en_ticket :: "64 word"
  en_class :: admission_class
  en_job :: 'j

record 'j executor_state =
  es_queue :: "'j entry list"
  es_outstanding :: nat
  es_next_ticket :: "64 word"
  es_stopping :: bool

record executor =
  ex_workers :: nat
  ex_capacity :: nat

record submission =
  sub_class :: admission_class
  sub_ticket :: "64 word"

definition new_executor :: "nat \<Rightarrow> nat \<Rightarrow> executor option" where
  "new_executor workers waiting =
     (if workers = 0 then None
      else (case checked_add workers waiting of
              None \<Rightarrow> None
            | Some capacity \<Rightarrow> Some \<lparr> ex_workers = workers, ex_capacity = capacity \<rparr>))"

definition new_executor_state :: "'j executor_state" where
  "new_executor_state = \<lparr> es_queue = [], es_outstanding = 0, es_next_ticket = 0, es_stopping = False \<rparr>"

definition try_submit ::
  "executor \<Rightarrow> (admission_class \<Rightarrow> 'j) \<Rightarrow> 'j executor_state \<Rightarrow>
     submit_error + submission \<times> 'j executor_state" where
  "try_submit x build s =
     (if es_stopping s then Inl Stopping
      else if es_outstanding s = ex_capacity x then Inl Full
      else
        (let class = (if es_outstanding s < ex_workers x then Active else Queued);
             ticket = es_next_ticket s in
         Inr (\<lparr> sub_class = class, sub_ticket = ticket \<rparr>,
              s\<lparr> es_next_ticket := es_next_ticket s + 1,
                 es_queue := es_queue s @ [\<lparr> en_ticket = ticket, en_class = class, en_job = build class \<rparr>],
                 es_outstanding := es_outstanding s + 1 \<rparr>)))"

text \<open>\<open>None\<close> in the outer option is the failing assertion on the entry's class.\<close>

definition cancel_queued ::
  "64 word \<Rightarrow> 'j executor_state \<Rightarrow> ('j option \<times> 'j executor_state) option" where
  "cancel_queued ticket s =
     (case find_index (\<lambda>e. en_ticket e = ticket) (es_queue s) of
        None \<Rightarrow> Some (None, s)
      | Some i \<Rightarrow>
          if en_class (es_queue s ! i) \<noteq> Queued then None
          else Some (Some (en_job (es_queue s ! i)),
                 s\<lparr> es_queue := take i (es_queue s) @ drop (Suc i) (es_queue s),
                    es_outstanding := es_outstanding s - 1 \<rparr>))"

definition stop :: "'j executor_state \<Rightarrow> 'j executor_state" where
  "stop s = s\<lparr> es_stopping := True \<rparr>"

datatype 'j worker_turn = Take 'j | Exit | Sleep

definition worker_turn :: "'j executor_state \<Rightarrow> 'j worker_turn \<times> 'j executor_state" where
  "worker_turn s =
     (case es_queue s of
        e # rest \<Rightarrow> (Take (en_job e), s\<lparr> es_queue := rest \<rparr>)
      | [] \<Rightarrow> if es_stopping s then (Exit, s) else (Sleep, s))"

definition retire_job :: "'j executor_state \<Rightarrow> 'j executor_state" where
  "retire_job s = s\<lparr> es_outstanding := es_outstanding s - 1 \<rparr>"

section \<open>Interleavings\<close>

text \<open>
  A worker is in its queue loop, executes a job whose capacity is still held, executes a job it
  has already retired, or has returned.
\<close>

datatype worker_status = W_Idle | W_Holding | W_Retired | W_Exited

record 'j executor_world =
  ew_state :: "'j executor_state"
  ew_workers :: "worker_status list"
  ew_accepted :: "'j list"
  ew_started :: "'j list"
  ew_submitted :: nat

definition executor_start :: "executor \<Rightarrow> 'j executor_world" where
  "executor_start x = \<lparr> ew_state = new_executor_state, ew_workers = replicate (ex_workers x) W_Idle,
     ew_accepted = [], ew_started = [], ew_submitted = 0 \<rparr>"

inductive executor_step :: "executor \<Rightarrow> 'j executor_world \<Rightarrow> 'j executor_world \<Rightarrow> bool" for x where
  ex_submit: "try_submit x build (ew_state w) = Inr (sub, s') \<Longrightarrow>
    executor_step x w (w\<lparr> ew_state := s', ew_accepted := ew_accepted w @ [build (sub_class sub)],
      ew_submitted := ew_submitted w + 1 \<rparr>)"
| ex_cancel: "cancel_queued ticket (ew_state w) = Some (Some j, s') \<Longrightarrow>
    find_index (\<lambda>e. en_ticket e = ticket) (es_queue (ew_state w)) = Some k \<Longrightarrow>
    executor_step x w (w\<lparr> ew_state := s', ew_accepted :=
      take (length (ew_started w) + k) (ew_accepted w) @
      drop (Suc (length (ew_started w) + k)) (ew_accepted w) \<rparr>)"
| ex_take: "n < length (ew_workers w) \<Longrightarrow> ew_workers w ! n = W_Idle \<Longrightarrow>
    worker_turn (ew_state w) = (Take j, s') \<Longrightarrow>
    executor_step x w (w\<lparr> ew_state := s', ew_workers := (ew_workers w)[n := W_Holding],
      ew_started := ew_started w @ [j] \<rparr>)"
| ex_exit: "n < length (ew_workers w) \<Longrightarrow> ew_workers w ! n = W_Idle \<Longrightarrow>
    worker_turn (ew_state w) = (Exit, s') \<Longrightarrow>
    executor_step x w (w\<lparr> ew_state := s', ew_workers := (ew_workers w)[n := W_Exited] \<rparr>)"
| ex_retire: "n < length (ew_workers w) \<Longrightarrow> ew_workers w ! n = W_Holding \<Longrightarrow>
    executor_step x w (w\<lparr> ew_state := retire_job (ew_state w),
      ew_workers := (ew_workers w)[n := W_Retired] \<rparr>)"
| ex_return: "n < length (ew_workers w) \<Longrightarrow> ew_workers w ! n = W_Retired \<Longrightarrow>
    executor_step x w (w\<lparr> ew_workers := (ew_workers w)[n := W_Idle] \<rparr>)"
| ex_stop: "executor_step x w (w\<lparr> ew_state := stop (ew_state w) \<rparr>)"

definition holding :: "worker_status list \<Rightarrow> nat" where
  "holding ws = length (filter (\<lambda>s. s = W_Holding) ws)"

definition executor_ok :: "executor \<Rightarrow> 'j executor_world \<Rightarrow> bool" where
  "executor_ok x w =
     (let s = ew_state w in
      length (ew_workers w) = ex_workers x \<and>
      es_outstanding s = length (es_queue s) + holding (ew_workers w) \<and>
      es_outstanding s \<le> ex_capacity x \<and>
      ew_accepted w = ew_started w @ map en_job (es_queue s) \<and>
      (W_Exited \<in> set (ew_workers w) \<longrightarrow> es_stopping s \<and> es_queue s = []) \<and>
      es_next_ticket s = word_of_nat (ew_submitted w) \<and>
      (\<exists>is. map en_ticket (es_queue s) = map word_of_nat is \<and> sorted_wrt (<) is \<and>
         (\<forall>i\<in>set is. i < ew_submitted w)))"

section \<open>Lemmas\<close>

lemma holding_update:
  "n < length ws \<Longrightarrow> holding (ws[n := v]) + (if ws ! n = W_Holding then 1 else 0) =
     holding ws + (if v = W_Holding then 1 else 0)"
  unfolding holding_def by (rule filter_update)

lemma holding_le: "holding ws \<le> length ws"
  by (simp add: holding_def)

definition ticket_order :: "64 word list \<Rightarrow> nat \<Rightarrow> bool" where
  "ticket_order ts n =
     (\<exists>is. ts = map word_of_nat is \<and> sorted_wrt (<) is \<and> (\<forall>i\<in>set is. i < n))"

lemma ticket_order_Nil [simp]: "ticket_order [] n"
  by (auto simp: ticket_order_def)

lemma ticket_order_snoc: "ticket_order ts n \<Longrightarrow> ticket_order (ts @ [word_of_nat n]) (Suc n)"
proof -
  assume "ticket_order ts n"
  then obtain "is" where "ts = map word_of_nat is" "sorted_wrt (<) is" "\<forall>i\<in>set is. i < n"
    by (auto simp: ticket_order_def)
  then show ?thesis unfolding ticket_order_def
    by (intro exI [of _ "is @ [n]"]) (auto simp: sorted_wrt_append less_Suc_eq)
qed

lemma ticket_order_drop:
  assumes "ticket_order (xs @ ys @ zs) n" shows "ticket_order (xs @ zs) n"
proof -
  from assms obtain xi yi zi where "xs = map word_of_nat xi" "zs = map word_of_nat zi"
    "sorted_wrt (<) (xi @ yi @ zi)" "\<forall>i\<in>set (xi @ yi @ zi). i < n"
    by (auto simp: ticket_order_def append_eq_map_conv)
  then show ?thesis unfolding ticket_order_def
    by (intro exI [of _ "xi @ zi"]) (auto simp: sorted_wrt_append)
qed

lemma ticket_order_distinct:
  assumes "ticket_order ts n" "n \<le> 2 ^ 64"
  shows "distinct ts"
proof -
  from assms obtain "is" where i: "ts = map word_of_nat is" "sorted_wrt (<) is" "\<forall>i\<in>set is. i < 2 ^ 64"
    by (force simp: ticket_order_def)
  have "inj_on (word_of_nat :: nat \<Rightarrow> 64 word) (set is)"
  proof (rule inj_onI)
    fix a b assume ab: "a \<in> set is" "b \<in> set is" "word_of_nat a = (word_of_nat b :: 64 word)"
    have "unat (word_of_nat c :: 64 word) = c" if "c \<in> set is" for c
      by (rule unat_word_of_nat_small) (use i(3) that in simp)
    from this [OF ab(1)] this [OF ab(2)] ab(3) show "a = b" by metis
  qed
  then show ?thesis using i by (simp add: distinct_map strict_sorted_iff)
qed

lemma executor_ok_alt:
  "executor_ok x w \<longleftrightarrow>
     length (ew_workers w) = ex_workers x \<and>
     es_outstanding (ew_state w) = length (es_queue (ew_state w)) + holding (ew_workers w) \<and>
     es_outstanding (ew_state w) \<le> ex_capacity x \<and>
     ew_accepted w = ew_started w @ map en_job (es_queue (ew_state w)) \<and>
     (W_Exited \<in> set (ew_workers w) \<longrightarrow> es_stopping (ew_state w) \<and> es_queue (ew_state w) = []) \<and>
     es_next_ticket (ew_state w) = word_of_nat (ew_submitted w) \<and>
     ticket_order (map en_ticket (es_queue (ew_state w))) (ew_submitted w)"
  by (simp add: executor_ok_def ticket_order_def Let_def)

lemma executor_ok_start: "executor_ok x (executor_start x)"
  by (simp add: executor_ok_alt executor_start_def new_executor_state_def holding_def)

lemma cancel_queued_cases:
  assumes "cancel_queued t s = Some (Some j, s')" "find_index (\<lambda>e. en_ticket e = t) (es_queue s) = Some k"
  obtains xs e ys where "es_queue s = xs @ e # ys" "es_queue s' = xs @ ys" "length xs = k"
    "j = en_job e" "s' = s\<lparr> es_queue := xs @ ys, es_outstanding := es_outstanding s - 1 \<rparr>"
proof
  from find_index_Some [OF assms(2)] have k: "k < length (es_queue s)" by simp
  then show "es_queue s = take k (es_queue s) @ es_queue s ! k # drop (Suc k) (es_queue s)"
    by (rule id_take_nth_drop)
  show "length (take k (es_queue s)) = k" using k by simp
qed (use assms in \<open>auto simp: cancel_queued_def split: if_splits\<close>)

lemma executor_ok_step: "executor_step x w w' \<Longrightarrow> executor_ok x w \<Longrightarrow> executor_ok x w'"
proof (induction rule: executor_step.induct)
  case (ex_submit build w sub s')
  then show ?case
    by (auto simp: executor_ok_alt try_submit_def Let_def ticket_order_snoc split: if_splits)
next
  case (ex_cancel ticket w j s' k)
  from ex_cancel.hyps obtain xs e ys where q: "es_queue (ew_state w) = xs @ e # ys" "length xs = k"
    "s' = (ew_state w)\<lparr> es_queue := xs @ ys, es_outstanding := es_outstanding (ew_state w) - 1 \<rparr>"
    by (rule cancel_queued_cases)
  then have "ticket_order (map en_ticket (xs @ ys)) (ew_submitted w)"
    using ex_cancel.prems ticket_order_drop [of "map en_ticket xs" "[en_ticket e]" "map en_ticket ys"]
    by (simp add: executor_ok_alt)
  with ex_cancel.prems q show ?case by (auto simp: executor_ok_alt)
next
  case (ex_take n w j s')
  then obtain e where q: "es_queue (ew_state w) = e # es_queue s'" "j = en_job e"
    "s' = (ew_state w)\<lparr> es_queue := es_queue s' \<rparr>"
    by (auto simp: worker_turn_def split: list.splits if_splits)
  then have "ticket_order (map en_ticket (es_queue s')) (ew_submitted w)"
    using ex_take.prems ticket_order_drop [of "[]" "[en_ticket e]" "map en_ticket (es_queue s')"]
    by (simp add: executor_ok_alt)
  moreover have "holding ((ew_workers w)[n := W_Holding]) = Suc (holding (ew_workers w))"
    using holding_update [OF ex_take.hyps(1), of W_Holding] ex_take.hyps(2) by simp
  ultimately show ?case
    using ex_take.prems q by (auto simp: executor_ok_alt dest: set_update_subset_insert [THEN subsetD])
      (metis executor_state.select_convs executor_state.surjective executor_state.update_convs)+
next
  case (ex_exit n w s')
  moreover from this have "holding ((ew_workers w)[n := W_Exited]) = holding (ew_workers w)"
    using holding_update [of n "ew_workers w" W_Exited] by simp
  ultimately show ?case
    by (auto simp: executor_ok_alt worker_turn_def split: list.splits if_splits)
next
  case (ex_retire n w)
  moreover from this have "Suc (holding ((ew_workers w)[n := W_Retired])) = holding (ew_workers w)"
    using holding_update [of n "ew_workers w" W_Retired] by simp
  ultimately show ?case
    by (auto simp: executor_ok_alt retire_job_def dest: set_update_subset_insert [THEN subsetD])
next
  case (ex_return n w)
  moreover from this have "holding ((ew_workers w)[n := W_Idle]) = holding (ew_workers w)"
    using holding_update [of n "ew_workers w" W_Idle] by simp
  ultimately show ?case
    by (auto simp: executor_ok_alt dest: set_update_subset_insert [THEN subsetD])
next
  case (ex_stop w)
  then show ?case by (auto simp: executor_ok_alt stop_def)
qed


interpretation executor: bounded_admission "executor_step x" "executor_start x" "executor_ok x"
  "\<lambda>w. holding (ew_workers w)" "\<lambda>w. es_outstanding (ew_state w)" "ex_workers x" "ex_capacity x" for x
proof
  show "executor_ok x (executor_start x)" by (rule executor_ok_start)
  show "executor_step x w w' \<Longrightarrow> executor_ok x w \<Longrightarrow> executor_ok x w'" for w w' by (rule executor_ok_step)
  show "executor_ok x w \<Longrightarrow> holding (ew_workers w) \<le> ex_workers x \<and> es_outstanding (ew_state w) \<le> ex_capacity x"
    for w by (metis executor_ok_alt holding_le)
qed

lemma find_index_unique:
  assumes "distinct (map f xs)" "i < length xs"
  shows "find_index (\<lambda>e. f e = f (xs ! i)) xs = Some i"
  using assms
proof (induction xs arbitrary: i)
  case (Cons y ys)
  then have "f (ys ! (i - 1)) \<in> f ` set ys" if "i > 0" using that by (intro imageI nth_mem) auto
  with Cons show ?case by (cases i) auto
qed simp

section \<open>Properties\<close>

text \<open>C3: over every interleaving of submissions, cancellations, worker turns, retirements and
  stopping, the executor never has more jobs admitted than its capacity nor more executing than
  its workers; the jobs accepted and not cancelled are exactly those started, in submission order,
  followed by those queued; and a worker returns only after stopping, when every such job has
  been started.\<close>

theorem executor_conservation:
  assumes "(executor_step x)\<^sup>*\<^sup>* (executor_start x) w"
  shows "es_outstanding (ew_state w) = length (es_queue (ew_state w)) + holding (ew_workers w) \<and>
    es_outstanding (ew_state w) \<le> ex_capacity x \<and> holding (ew_workers w) \<le> ex_workers x \<and>
    ew_accepted w = ew_started w @ map en_job (es_queue (ew_state w)) \<and>
    (W_Exited \<in> set (ew_workers w) \<longrightarrow> es_stopping (ew_state w) \<and> ew_accepted w = ew_started w)"
  using executor.reachable_ok [OF assms] executor.reachable_bounded [OF assms]
  by (auto simp: executor_ok_alt)

theorem executor_conservation_witness:
  "\<exists>w :: nat executor_world. (executor_step \<lparr> ex_workers = 1, ex_capacity = 1 \<rparr>)\<^sup>*\<^sup>*
      (executor_start \<lparr> ex_workers = 1, ex_capacity = 1 \<rparr>) w \<and>
    ew_accepted w = [7] \<and> ew_accepted w = ew_started w @ map en_job (es_queue (ew_state w))"
proof -
  let ?x = "\<lparr> ex_workers = 1, ex_capacity = 1 \<rparr>"
  let ?s = "executor_start ?x :: nat executor_world"
  obtain sub s' where t: "try_submit ?x (\<lambda>_. 7) (ew_state ?s) = Inr (sub, s')"
    by (simp add: try_submit_def executor_start_def new_executor_state_def Let_def)
  from ex_submit [OF t] have r: "(executor_step ?x)\<^sup>*\<^sup>* ?s
    (?s\<lparr> ew_state := s', ew_accepted := ew_accepted ?s @ [7], ew_submitted := ew_submitted ?s + 1 \<rparr>)"
    by (rule r_into_rtranclp)
  from executor_conservation [OF r] r show ?thesis
    by (intro exI [of _ "?s\<lparr> ew_state := s', ew_accepted := ew_accepted ?s @ [7],
        ew_submitted := ew_submitted ?s + 1 \<rparr>"]) (simp add: executor_start_def)
qed


definition two_jobs :: "nat executor_world" where
  "two_jobs = \<lparr> ew_state = \<lparr> es_queue = [\<lparr> en_ticket = 0, en_class = Active, en_job = 5 \<rparr>,
       \<lparr> en_ticket = 1, en_class = Queued, en_job = 6 \<rparr>],
       es_outstanding = 2, es_next_ticket = 2, es_stopping = False \<rparr>,
     ew_workers = [W_Idle], ew_accepted = [5, 6], ew_started = [], ew_submitted = 2 \<rparr>"

lemma two_jobs_reachable:
  "(executor_step \<lparr> ex_workers = 1, ex_capacity = 2 \<rparr>)\<^sup>*\<^sup>*
     (executor_start \<lparr> ex_workers = 1, ex_capacity = 2 \<rparr>) two_jobs"
proof -
  let ?x = "\<lparr> ex_workers = 1, ex_capacity = 2 \<rparr>"
  let ?w = "\<lparr> ew_state = \<lparr> es_queue = [\<lparr> en_ticket = 0, en_class = Active, en_job = 5 \<rparr>],
       es_outstanding = 1, es_next_ticket = 1, es_stopping = False \<rparr>,
     ew_workers = [W_Idle], ew_accepted = [5], ew_started = [], ew_submitted = 1 \<rparr>"
  have 1: "executor_step ?x (executor_start ?x) ?w"
    using ex_submit [of ?x "\<lambda>_. 5" "executor_start ?x" "\<lparr> sub_class = Active, sub_ticket = 0 \<rparr>" "ew_state ?w"]
    by (simp add: try_submit_def executor_start_def new_executor_state_def)
  have 2: "executor_step ?x ?w two_jobs"
    using ex_submit [of ?x "\<lambda>_. 6" ?w "\<lparr> sub_class = Queued, sub_ticket = 1 \<rparr>" "ew_state two_jobs"]
    by (simp add: try_submit_def two_jobs_def numeral_2_eq_2)
  from 1 2 show ?thesis by (meson converse_rtranclp_into_rtranclp rtranclp.rtrancl_refl)
qed


end
