(* ===== verification/Request_Handler.thy ===== *)
theory Request_Handler
  imports Native_Router Request_Limits Compression Shutdown Roc_Executor
begin

text \<open>
  \<open>src/src/http_server.rs\<close>: \<open>handle_req\<close>, the path of one request through the components, from
  the request tracker to the finalised response.  What the handler awaits (the completion of a Roc
  call, the preparation of a stream, the start of a file thread, the rendered metrics) is an
  argument; a panic is \<open>None\<close>.  The calls of the telemetry are the list of its events.
\<close>

section \<open>Responses of the host\<close>

datatype 'f handler_stream = File_Stream_Body "'f file_stream" | Sse_Stream bool

definition host_response :: "'h http_crate \<Rightarrow> nat \<Rightarrow> string \<Rightarrow> ('h, 'b) server_response" where
  "host_response C status body = \<lparr> rsp_status = status, rsp_headers = hm_new C, rsp_body = Full_Body body \<rparr>"

definition service_unavailable :: "'h http_crate \<Rightarrow> ('h, 'b) server_response" where
  "service_unavailable C = host_response C 503 ''Server is shutting down''"

definition overloaded_response :: "'h http_crate \<Rightarrow> ('h, 'b) server_response" where
  "overloaded_response C = host_response C 503 ''Server is overloaded''"

definition no_acceptable_sse_content_coding :: "'h http_crate \<Rightarrow> ('h, 'b) server_response" where
  "no_acceptable_sse_content_coding C =
     (let response = host_response C 406 ''No acceptable SSE content coding'' in
      response\<lparr> rsp_headers := vary_on_accept_encoding C (rsp_headers response) \<rparr>)"

definition handler_queue_timed_out :: "'h http_crate \<Rightarrow> ('h, 'b) server_response" where
  "handler_queue_timed_out C = host_response C 503 ''Server handler queue wait timed out''"

definition invalid_request_headers :: "'h http_crate \<Rightarrow> ('h, 'b) server_response" where
  "invalid_request_headers C = host_response C 400 ''Request header values must be valid UTF-8''"

definition invalid_request_target_response :: "'h http_crate \<Rightarrow> ('h, 'b) server_response" where
  "invalid_request_target_response C = host_response C 400 ''Invalid request target or authority''"

definition request_target_too_long :: "'h http_crate \<Rightarrow> nat \<Rightarrow> ('h, 'b) server_response" where
  "request_target_too_long C limit =
     host_response C 414 (''Request target exceeds the '' @ to_decimal limit @ ''-byte limit'')"

definition request_headers_too_large :: "'h http_crate \<Rightarrow> nat \<Rightarrow> nat \<Rightarrow> ('h, 'b) server_response" where
  "request_headers_too_large C byte_limit field_limit =
     host_response C 431 (''Request headers exceed the '' @ to_decimal byte_limit @ ''-byte or '' @
       to_decimal field_limit @ ''-field limit'')"

text \<open>\<open>None\<close> is the panic of the target length inside the admission.\<close>

definition reject_request_metadata :: "'h http_crate \<Rightarrow> request_metadata_rejection \<Rightarrow> ('h, 'b) server_response option" where
  "reject_request_metadata C rejection =
     (case rejection of
        TargetTooLong limit \<Rightarrow> Some (request_target_too_long C limit)
      | HeadersTooLarge byte_limit field_limit \<Rightarrow> Some (request_headers_too_large C byte_limit field_limit)
      | Target_Length_Panic \<Rightarrow> None)"

definition payload_too_large :: "'h http_crate \<Rightarrow> nat \<Rightarrow> ('h, 'b) server_response" where
  "payload_too_large C limit =
     host_response C 413 (''Request body exceeds the '' @ to_decimal limit @ ''-byte limit'')"

definition sse_response :: "'h http_crate \<Rightarrow> bool \<Rightarrow> ('h, 'f handler_stream) server_response" where
  "sse_response C compressed =
     (let headers = hm_append C (hm_append C (hm_new C) ''content-type'' ''text/event-stream'') ''cache-control'' ''no-cache'';
          headers = vary_on_accept_encoding C headers in
      \<lparr> rsp_status = 200,
        rsp_headers = (if compressed then hm_insert C headers ''content-encoding'' ''br'' else headers),
        rsp_body = Other_Body None (Sse_Stream compressed) \<rparr>)"

definition OPENMETRICS_CONTENT_TYPE :: string where
  "OPENMETRICS_CONTENT_TYPE = ''application/openmetrics-text; version=1.0.0; charset=utf-8''"

definition metrics_response :: "'h http_crate \<Rightarrow> string \<Rightarrow> string \<Rightarrow> ('h, 'b) server_response option" where
  "metrics_response C rendered method =
     (if method \<noteq> ''GET'' \<and> method \<noteq> ''HEAD'' then
        Some \<lparr> rsp_status = 405,
          rsp_headers = hm_insert C (hm_insert C (hm_new C) ''allow'' ''GET, HEAD'') ''cache-control'' ''no-store'',
          rsp_body = Full_Body ''Method Not Allowed'' \<rparr>
      else (case hv_from_str C (to_decimal (length rendered)) of
              None \<Rightarrow> None
            | Some v \<Rightarrow>
                Some \<lparr> rsp_status = 200,
                  rsp_headers = hm_insert C (hm_insert C (hm_insert C (hm_new C) ''content-type'' OPENMETRICS_CONTENT_TYPE)
                    ''cache-control'' ''no-store'') ''content-length'' v,
                  rsp_body = Full_Body (if method = ''HEAD'' then [] else rendered) \<rparr>))"

section \<open>Request fields\<close>

definition content_length :: "'h http_crate \<Rightarrow> 'h \<Rightarrow> nat option" where
  "content_length C headers =
     (case hm_get C headers ''content-length'' of
        None \<Rightarrow> None
      | Some value \<Rightarrow> (case hv_to_str C value of None \<Rightarrow> None | Some text \<Rightarrow> parse_u64 text))"

definition request_headers_are_utf8 :: "'h http_crate \<Rightarrow> 'h \<Rightarrow> bool" where
  "request_headers_are_utf8 C headers = list_all (\<lambda>(name, value). hv_to_str C value \<noteq> None) (hm_iter C headers)"

section \<open>What the application returns\<close>

record ordinary_response =
  or_status :: nat
  or_headers :: "(string \<times> string) list"
  or_body :: string
  or_stop :: bool
  or_exit_code :: int

record file_response =
  fr_file_root_id :: string
  fr_file_relative :: string
  fr_file_disposition :: "8 word"
  fr_file_download_name :: string
  fr_file_cache_override :: bool
  fr_file_cache_tag :: "8 word"
  fr_file_cache_max_age_seconds :: "32 word"

datatype roc_server_response = Roc_Ordinary ordinary_response | Roc_File file_response | Roc_Stream

datatype ('h, 'f) roc_outcome =
  Outcome_Ordinary "response_error + ('h, 'f handler_stream) server_response" "int option"
| Outcome_File file_plan
| Outcome_Stream streaming_content_coding
| Outcome_Invalid

text \<open>\<open>encode\<close> is \<open>encode_bytes\<close> of the encoders.\<close>

definition response_to_hyper ::
  "'h http_crate \<Rightarrow> (content_coding \<Rightarrow> string \<Rightarrow> string option) \<Rightarrow> ordinary_response \<Rightarrow> accepted_encodings \<Rightarrow>
     request_semantics \<Rightarrow> response_error + ('h, 'b) server_response" where
  "response_to_hyper C encode response accepted request =
     bind_result (application_parts C (or_status response) (or_headers response) (length (or_body response)) request)
       (\<lambda>(status, headers).
     let plain = \<lparr> rsp_status = status, rsp_headers = headers, rsp_body = Full_Body (or_body response) \<rparr> in
     if length (or_body response) \<le> MAX_BUFFERED_COMPRESSION_BYTES \<and>
        response_is_compressible C status headers (length (or_body response))
     then (let headers = vary_on_accept_encoding C headers; plain = plain\<lparr> rsp_headers := headers \<rparr> in
           case preferred accepted of
             None \<Rightarrow> Inr plain
           | Some coding \<Rightarrow>
               (case encode coding (or_body response) of
                  None \<Rightarrow> Inr plain
                | Some encoded \<Rightarrow>
                    if length encoded < length (or_body response)
                    then Inr \<lparr> rsp_status = status,
                           rsp_headers = apply_content_coding C headers coding (Some (length encoded)),
                           rsp_body = Full_Body encoded \<rparr>
                    else Inr plain))
     else Inr plain)"

definition outcome_from_roc ::
  "'h http_crate \<Rightarrow> (content_coding \<Rightarrow> string \<Rightarrow> string option) \<Rightarrow> roc_server_response \<Rightarrow> accepted_encodings \<Rightarrow>
     request_semantics \<Rightarrow> ('h, 'f) roc_outcome" where
  "outcome_from_roc C encode response accepted request =
     (case response of
        Roc_Ordinary r \<Rightarrow>
          Outcome_Ordinary (response_to_hyper C encode r accepted request) (if or_stop r then Some (or_exit_code r) else None)
      | Roc_File r \<Rightarrow>
          (case (if fr_file_disposition r = 0 \<and> fr_file_download_name r = [] then Some Inline
                 else if fr_file_disposition r = 1 then Some (Attachment (fr_file_download_name r)) else None) of
             None \<Rightarrow> Outcome_Invalid
           | Some disposition \<Rightarrow>
               if fr_file_cache_override r then
                 (case cache_policy_from_abi (fr_file_cache_tag r) (fr_file_cache_max_age_seconds r) of
                    Some cache \<Rightarrow> Outcome_File (authorized_plan (fr_file_root_id r) (fr_file_relative r) disposition (Some cache))
                  | None \<Rightarrow> Outcome_Invalid)
               else if fr_file_cache_tag r = 0 \<and> fr_file_cache_max_age_seconds r = 0
               then Outcome_File (authorized_plan (fr_file_root_id r) (fr_file_relative r) disposition None)
               else Outcome_Invalid)
      | Roc_Stream \<Rightarrow> Outcome_Stream (preferred_streaming accepted))"

section \<open>The context\<close>

datatype rejection_reason =
  Rej_Shutdown | Rej_InvalidHeaders | Rej_BodyTooLarge | Rej_HandlerOverload | Rej_RocPanic | Rej_HostPanic
| Rej_InvalidRocResponse | Rej_FileOverload | Rej_FileFailure

datatype destination = Roc_Destination | NativeFile | NativeProbe | NativeMetrics | HostRejection

datatype telemetry_event =
  Reject rejection_reason | Reject_For destination rejection_reason | Set_Destination destination

record 'h ordinary_roc_job =
  oj_parts :: "'h request_head"
  oj_metadata :: request_metadata
  oj_body_limit :: nat
  oj_declared_length :: "nat option"
  oj_accepted_encodings :: accepted_encodings
  oj_response_semantics :: request_semantics

datatype 'h roc_job = Ordinary_Job "'h ordinary_roc_job" | Sse_Job

record ('h, 'd, 'n, 'c) server_context =
  cx_requests :: "'n request_tracker"
  cx_request_metadata :: request_metadata_limits
  cx_routes :: native_router
  cx_readiness :: readiness_state
  cx_files :: "'d file_service"
  cx_body_max_bytes :: nat
  cx_executor :: executor
  cx_roc_executor :: "'h roc_job executor_state"
  cx_shutdown :: "'c shutdown_controller"
  cx_response_idle_timeout :: nat
  cx_body_idle_timeout :: nat

datatype completion = Completed roc_server_response | Execution_Panic | Completion_Lost

datatype sse_prepared =
  Sse_Prepared | Sse_Admission submit_error | Sse_QueueTimedOut | Sse_Cancelled | Sse_Panic
| Sse_Application | Sse_InvalidWait | Sse_Oversized

text \<open>
  What the handler awaits.  \<open>aw_queue_timed_out\<close>: the queue timeout passed and the job could
  still be cancelled, which happens for a queued job only.
\<close>

record awaited =
  aw_queue_timed_out :: bool
  aw_completion :: completion
  aw_stream_slot :: bool
  aw_brotli_lane :: bool
  aw_sse :: sse_prepared
  aw_spawn_error :: "string option"
  aw_metrics :: string

record ('h, 'f) tracked_response =
  tk_response :: "('h, 'f handler_stream) server_response"
  tk_active_request :: bool
  tk_http1_activity :: bool
  tk_body_idle_timeout :: "nat option"

section \<open>Handling\<close>

definition record_file_failure :: "file_serve_failure option \<Rightarrow> telemetry_event list" where
  "record_file_failure failure =
     (case failure of
        Some Overloaded \<Rightarrow> [Reject_For NativeFile Rej_FileOverload]
      | Some InvalidPlan \<Rightarrow> [Reject_For NativeFile Rej_InvalidRocResponse]
      | Some StartFailed \<Rightarrow> [Reject_For NativeFile Rej_FileFailure]
      | None \<Rightarrow> [])"

definition request_stop_after ::
  "('c, shutdown_reason option) watch_crate \<Rightarrow> int option \<Rightarrow> 'c shutdown_controller \<Rightarrow> 'c shutdown_controller" where
  "request_stop_after W exit_code shutdown =
     (case exit_code of None \<Rightarrow> shutdown | Some n \<Rightarrow> snd (request_shutdown W (ApplicationRequested n) shutdown))"

text \<open>\<open>is_end_stream\<close>: a file body has ended when nothing remains of a known length, an event
  stream has not ended before it is polled.\<close>

definition body_end_stream :: "'b server_body \<Rightarrow> bool" where
  "body_end_stream body = (case body of Empty_Body \<Rightarrow> True | Full_Body bytes \<Rightarrow> bytes = [] | Other_Body n _ \<Rightarrow> n = Some 0)"

definition track_response ::
  "('h, 'f handler_stream) server_response \<Rightarrow> bool \<Rightarrow> bool \<Rightarrow> nat option \<Rightarrow>
     ('h, 'f) tracked_response" where
  "track_response response active_request http1_activity body_idle_timeout =
     \<lparr> tk_response = response, tk_active_request = active_request,
       tk_http1_activity = (http1_activity \<and> \<not> body_end_stream (rsp_body response)),
       tk_body_idle_timeout = body_idle_timeout \<rparr>"

definition finalize_and_track_response ::
  "'h http_crate \<Rightarrow> ('h, 'f handler_stream) server_response \<Rightarrow> request_semantics \<Rightarrow>
     bool \<Rightarrow> bool \<Rightarrow> nat option \<Rightarrow> (('h, 'f) tracked_response \<times> telemetry_event list) option" where
  "finalize_and_track_response C response semantics active_request http1_activity body_idle_timeout =
     (case finalize_response C response semantics of
        Inr r \<Rightarrow> Some (track_response r active_request http1_activity body_idle_timeout, [])
      | Inl _ \<Rightarrow>
          map_option (\<lambda>r. (track_response r active_request http1_activity body_idle_timeout, [Reject Rej_InvalidRocResponse]))
            (safe_internal_server_error C semantics))"

text \<open>The response of a file plan, with its stream as a body of the handler.\<close>

definition lift_response :: "('h, 'f file_stream) server_response \<Rightarrow> ('h, 'f handler_stream) server_response" where
  "lift_response r = \<lparr> rsp_status = rsp_status r, rsp_headers = rsp_headers r,
     rsp_body = map_server_body File_Stream_Body (rsp_body r) \<rparr>"

definition serve_plan ::
  "'h http_crate \<Rightarrow> http_date \<Rightarrow> ('d, 'f) cap_fs \<Rightarrow> 'f file_ops \<Rightarrow> awaited \<Rightarrow> 'h request_head \<Rightarrow> file_plan \<Rightarrow>
     ('h, 'd, 'n, 'c) server_context \<Rightarrow>
     ('h, 'f handler_stream) server_response option \<times> telemetry_event list \<times> ('h, 'd, 'n, 'c) server_context" where
  "serve_plan C D F fops aw parts plan cx =
     (case serve C D F fops (aw_spawn_error aw) (cx_files cx) plan (rq_method parts) (rq_headers parts) of
        (response, failure, files) \<Rightarrow>
          (Some (lift_response response), Set_Destination NativeFile # record_file_failure failure, cx\<lparr> cx_files := files \<rparr>))"

definition native_response ::
  "'h http_crate \<Rightarrow> http_date \<Rightarrow> ('d, 'f) cap_fs \<Rightarrow> 'f file_ops \<Rightarrow> awaited \<Rightarrow> 'h request_head \<Rightarrow>
     ('h, 'f handler_stream) native_match \<Rightarrow> ('h, 'd, 'n, 'c) server_context \<Rightarrow>
     ('h, 'f handler_stream) server_response option \<times> telemetry_event list \<times> ('h, 'd, 'n, 'c) server_context" where
  "native_response C D F fops aw parts native cx =
     (case native of
        Match_File plan \<Rightarrow> serve_plan C D F fops aw parts plan cx
      | Match_Probe response \<Rightarrow> (Some response, [Set_Destination NativeProbe], cx)
      | Match_Metrics \<Rightarrow> (metrics_response C (aw_metrics aw) (rq_method parts), [Set_Destination NativeMetrics], cx)
      | Match_Panic \<Rightarrow> (None, [], cx))"

text \<open>The first component tells an early return, which skips the rest of the handler.\<close>

definition stream_response ::
  "'h http_crate \<Rightarrow> awaited \<Rightarrow> streaming_content_coding \<Rightarrow> request_semantics \<Rightarrow>
     bool \<times> ('h, 'f handler_stream) server_response option \<times> telemetry_event list" where
  "stream_response C aw coding semantics =
     (if coding = SC_NotAcceptable then (False, Some (no_acceptable_sse_content_coding C), [])
      else if \<not> aw_stream_slot aw then (False, Some (overloaded_response C), [Reject Rej_HandlerOverload])
      else if coding = SC_Brotli \<and> \<not> aw_brotli_lane aw then (True, Some (overloaded_response C), [Reject Rej_HandlerOverload])
      else (case aw_sse aw of
              Sse_Prepared \<Rightarrow> (False, Some (sse_response C (coding = SC_Brotli)), [])
            | Sse_Admission Full \<Rightarrow> (False, Some (overloaded_response C), [Reject Rej_HandlerOverload])
            | Sse_QueueTimedOut \<Rightarrow> (False, Some (overloaded_response C), [Reject Rej_HandlerOverload])
            | Sse_Admission Stopping \<Rightarrow> (False, Some (service_unavailable C), [Reject Rej_Shutdown])
            | Sse_Cancelled \<Rightarrow> (False, Some (service_unavailable C), [Reject Rej_Shutdown])
            | Sse_Panic \<Rightarrow> (False, safe_internal_server_error C semantics, [Reject Rej_RocPanic])
            | _ \<Rightarrow> (False, safe_internal_server_error C semantics, [Reject Rej_InvalidRocResponse])))"

definition outcome_response ::
  "'h http_crate \<Rightarrow> http_date \<Rightarrow> ('d, 'f) cap_fs \<Rightarrow> 'f file_ops \<Rightarrow> ('c, shutdown_reason option) watch_crate \<Rightarrow> awaited \<Rightarrow>
     'h request_head \<Rightarrow> request_semantics \<Rightarrow> ('h, 'f) roc_outcome \<Rightarrow> ('h, 'd, 'n, 'c) server_context \<Rightarrow>
     bool \<times> ('h, 'f handler_stream) server_response option \<times> telemetry_event list \<times> ('h, 'd, 'n, 'c) server_context" where
  "outcome_response C D F fops W aw parts semantics outcome cx =
     (case outcome of
        Outcome_Ordinary response stop_code \<Rightarrow>
          (let cx = cx\<lparr> cx_shutdown := request_stop_after W stop_code (cx_shutdown cx) \<rparr> in
           case response of
             Inr r \<Rightarrow> (False, Some r, [], cx)
           | Inl _ \<Rightarrow> (False, safe_internal_server_error C semantics, [Reject Rej_InvalidRocResponse], cx))
      | Outcome_File plan \<Rightarrow> (False, serve_plan C D F fops aw parts plan cx)
      | Outcome_Stream coding \<Rightarrow>
          (case stream_response C aw coding semantics of (early, response, events) \<Rightarrow> (early, response, events, cx))
      | Outcome_Invalid \<Rightarrow> (False, safe_internal_server_error C semantics, [Reject Rej_InvalidRocResponse], cx))"

definition roc_response ::
  "'h http_crate \<Rightarrow> http_date \<Rightarrow> ('d, 'f) cap_fs \<Rightarrow> 'f file_ops \<Rightarrow> ('c, shutdown_reason option) watch_crate \<Rightarrow>
     (content_coding \<Rightarrow> string \<Rightarrow> string option) \<Rightarrow> awaited \<Rightarrow> 'h request_head \<Rightarrow> request_semantics \<Rightarrow> request_metadata \<Rightarrow>
     ('h, 'd, 'n, 'c) server_context \<Rightarrow>
     bool \<times> ('h, 'f handler_stream) server_response option \<times> telemetry_event list \<times> ('h, 'd, 'n, 'c) server_context" where
  "roc_response C D F fops W encode aw parts semantics metadata cx =
     (let accepted_encodings = from_headers C (rq_headers parts);
          job = \<lparr> oj_parts = parts, oj_metadata = metadata, oj_body_limit = cx_body_max_bytes cx,
                  oj_declared_length = content_length C (rq_headers parts),
                  oj_accepted_encodings = accepted_encodings, oj_response_semantics = semantics \<rparr> in
      case try_submit (cx_executor cx) (\<lambda>class. Ordinary_Job job) (cx_roc_executor cx) of
        Inl Full \<Rightarrow> (False, Some (overloaded_response C), [Reject Rej_HandlerOverload], cx)
      | Inl Stopping \<Rightarrow> (False, Some (service_unavailable C), [Reject Rej_Shutdown], cx)
      | Inr (admission, executor) \<Rightarrow>
          (let cx = cx\<lparr> cx_roc_executor := executor \<rparr> in
           if sub_class admission = Queued \<and> aw_queue_timed_out aw
           then (True, Some (handler_queue_timed_out C), [Set_Destination Roc_Destination, Reject Rej_HandlerOverload], cx)
           else (case (case aw_completion aw of
                         Execution_Panic \<Rightarrow> (False, safe_internal_server_error C semantics, [Reject Rej_RocPanic], cx)
                       | Completion_Lost \<Rightarrow> (False, safe_internal_server_error C semantics, [Reject Rej_HostPanic], cx)
                       | Completed response \<Rightarrow>
                           outcome_response C D F fops W aw parts semantics
                             (outcome_from_roc C encode response accepted_encodings semantics) cx) of
                   (early, response, events, cx) \<Rightarrow> (early, response, Set_Destination Roc_Destination # events, cx))))"

definition finish_request ::
  "'h http_crate \<Rightarrow> request_semantics \<Rightarrow> bool \<Rightarrow> bool \<Rightarrow> nat option \<Rightarrow> ('h, 'f handler_stream) server_response option \<Rightarrow>
     telemetry_event list \<Rightarrow> 'cx \<Rightarrow> (('h, 'f) tracked_response \<times> telemetry_event list \<times> 'cx) option" where
  "finish_request C semantics active_request http1_activity body_idle_timeout response events cx =
     (case response of
        None \<Rightarrow> None
      | Some r \<Rightarrow>
          map_option (\<lambda>(t, more). (t, events @ more, cx))
            (finalize_and_track_response C r semantics active_request http1_activity body_idle_timeout))"

definition native_match_of ::
  "'h http_crate \<Rightarrow> request_metadata \<Rightarrow> 'h request_head \<Rightarrow> ('h, 'd, 'n, 'c) server_context \<Rightarrow>
     ('h, 'b) native_match option \<times> native_router" where
  "native_match_of C metadata parts cx =
     (case resource_path metadata (rq_uri parts) of
        None \<Rightarrow> (None, cx_routes cx)
      | Some path \<Rightarrow> route C (cx_readiness cx) path (rq_method parts) (cx_routes cx))"

definition handle_req ::
  "'h http_crate \<Rightarrow> http_date \<Rightarrow> ('d, 'f) cap_fs \<Rightarrow> 'f file_ops \<Rightarrow> ('c, shutdown_reason option) watch_crate \<Rightarrow>
     (content_coding \<Rightarrow> string \<Rightarrow> string option) \<Rightarrow> awaited \<Rightarrow> 'h request_head \<Rightarrow> bool \<Rightarrow> request_semantics \<Rightarrow>
     ('h, 'd, 'n, 'c) server_context \<Rightarrow>
     (('h, 'f) tracked_response \<times> telemetry_event list \<times> ('h, 'd, 'n, 'c) server_context) option" where
  "handle_req C D F fops W encode aw parts http1_activity semantics cx =
     (let body_idle_timeout = (if http1_activity then Some (cx_response_idle_timeout cx) else None) in
      case begin_request (cx_requests cx) of
        (False, requests) \<Rightarrow>
          finish_request C semantics False http1_activity body_idle_timeout (Some (service_unavailable C)) [Reject Rej_Shutdown] cx
      | (True, requests) \<Rightarrow>
          (let cx = cx\<lparr> cx_requests := requests \<rparr>;
               finish = finish_request C semantics True http1_activity in
           case validate_parts C parts of
             Inl InvalidRequestTarget \<Rightarrow> finish body_idle_timeout (Some (invalid_request_target_response C)) [Reject Rej_InvalidHeaders] cx
           | Inl Expect_Panic \<Rightarrow> None
           | Inr metadata \<Rightarrow>
               (case admit_parts C (cx_request_metadata cx) parts metadata of
                  Inl rejection \<Rightarrow>
                    finish body_idle_timeout (reject_request_metadata C rejection) [Reject Rej_InvalidHeaders] cx
                | Inr _ \<Rightarrow>
                    (case native_match_of C metadata parts cx of
                       (Some native, routes) \<Rightarrow>
                         (case native_response C D F fops aw parts native (cx\<lparr> cx_routes := routes \<rparr>) of
                            (response, events, cx) \<Rightarrow> finish body_idle_timeout response events cx)
                     | (None, routes) \<Rightarrow>
                         (let cx = cx\<lparr> cx_routes := routes \<rparr> in
                          if \<not> request_headers_are_utf8 C (rq_headers parts)
                          then finish body_idle_timeout (Some (invalid_request_headers C)) [Reject Rej_InvalidHeaders] cx
                          else (case content_length C (rq_headers parts) of
                                  Some n \<Rightarrow>
                                    if n > cx_body_max_bytes cx
                                    then finish body_idle_timeout (Some (payload_too_large C (cx_body_max_bytes cx))) [Reject Rej_BodyTooLarge] cx
                                    else (case roc_response C D F fops W encode aw parts semantics metadata cx of
                                            (early, response, events, cx) \<Rightarrow>
                                              finish (if early then Some (cx_body_idle_timeout cx) else body_idle_timeout) response events cx)
                                | None \<Rightarrow>
                                    (case roc_response C D F fops W encode aw parts semantics metadata cx of
                                       (early, response, events, cx) \<Rightarrow>
                                         finish (if early then Some (cx_body_idle_timeout cx) else body_idle_timeout) response events cx)))))))"

section \<open>Lemmas\<close>

text \<open>What holds of a finished request: it has a finalised response, and is counted as active
  exactly when the tracker admitted it.\<close>

definition answered :: "'h http_crate \<Rightarrow> request_semantics \<Rightarrow> bool \<Rightarrow>
    (('h, 'f) tracked_response \<times> telemetry_event list \<times> 'cx) option \<Rightarrow> 'cx \<Rightarrow> bool" where
  "answered C semantics active result cx \<longleftrightarrow>
     (\<exists>t events. result = Some (t, events, cx) \<and> tk_active_request t = active \<and>
        (\<exists>r. finalize_response C r semantics = Inr (tk_response t)))"

text \<open>What has been checked when a job for the application reaches the executor.\<close>

definition vetted_submission ::
  "'h http_crate \<Rightarrow> 'h request_head \<Rightarrow> request_semantics \<Rightarrow> ('h, 'd, 'n, 'c) server_context \<Rightarrow> 'h roc_job executor_state \<Rightarrow> bool" where
  "vetted_submission C parts semantics cx executor' \<longleftrightarrow>
     (\<exists>metadata admission. rc_accepting (rt_count (cx_requests cx)) \<and> validate_parts C parts = Inr metadata \<and>
        admit_parts C (cx_request_metadata cx) parts metadata = Inr () \<and>
        fst (native_match_of C metadata parts cx :: ('h, unit) native_match option \<times> native_router) = None \<and>
        list_all (\<lambda>(name, value). hv_to_str C value \<noteq> None) (hm_iter C (rq_headers parts)) \<and>
        (\<forall>n. content_length C (rq_headers parts) = Some n \<longrightarrow> n \<le> cx_body_max_bytes cx) \<and>
        try_submit (cx_executor cx) (\<lambda>class. Ordinary_Job
          \<lparr> oj_parts = parts, oj_metadata = metadata, oj_body_limit = cx_body_max_bytes cx,
            oj_declared_length = content_length C (rq_headers parts),
            oj_accepted_encodings = from_headers C (rq_headers parts), oj_response_semantics = semantics \<rparr>)
          (cx_roc_executor cx) = Inr (admission, executor'))"

definition handled_ok ::
  "'h http_crate \<Rightarrow> 'h request_head \<Rightarrow> request_semantics \<Rightarrow> ('h, 'd, 'n, 'c) server_context \<Rightarrow>
     (('h, 'f) tracked_response \<times> telemetry_event list \<times> ('h, 'd, 'n, 'c) server_context) option \<Rightarrow> bool" where
  "handled_ok C parts semantics cx result \<longleftrightarrow>
     (\<exists>cx'. answered C semantics (rc_accepting (rt_count (cx_requests cx))) result cx' \<and>
        cx_requests cx' = snd (begin_request (cx_requests cx)) \<and>
        (cx_roc_executor cx' = cx_roc_executor cx \<or> vetted_submission C parts semantics cx (cx_roc_executor cx')))"

lemma handled_okI:
  assumes "answered C semantics (rc_accepting (rt_count (cx_requests cx))) result cx'"
    "cx_requests cx' = snd (begin_request (cx_requests cx))"
    "cx_roc_executor cx' = cx_roc_executor cx \<or> vetted_submission C parts semantics cx (cx_roc_executor cx')"
  shows "handled_ok C parts semantics cx result"
  using assms unfolding handled_ok_def by blast

text \<open>Whether a request has a native route does not depend on the type of response bodies.\<close>

lemma route_None: "fst (route C R path method router) = None \<longleftrightarrow>
    map_of (nr_exact router) path = None \<and> route_prefixes (nr_prefixes router) path = None"
  by (auto simp: route_def route_probe_def split: option.splits exact_route.splits prod.splits)

lemma native_match_None:
  "fst (native_match_of C metadata parts cx :: ('h, 'a) native_match option \<times> native_router) = None \<longleftrightarrow>
   fst (native_match_of C metadata parts cx :: ('h, 'b) native_match option \<times> native_router) = None"
  by (simp add: native_match_of_def route_None split: option.splits)

context http_laws
begin

lemma safe_Some: "\<exists>r :: ('h, 'b) server_response. safe_internal_server_error C semantics = Some r \<and>
    finalize_response C (internal_error_response C) semantics = Inr r"
  using safe_500_ok [of semantics, where 'b = 'b] by (auto simp: safe_internal_server_error_def)

lemma finish_answered:
  fixes response :: "('h, 'f handler_stream) server_response option"
  assumes "response \<noteq> None"
  shows "answered C semantics active (finish_request C semantics active http1 timeout response events cx) cx"
proof -
  from assms obtain r where r: "response = Some r" by blast
  show ?thesis
  proof (cases "finalize_response C r semantics")
    case (Inl e)
    from safe_Some [of semantics, where 'b = "'f handler_stream"] obtain r' :: "('h, 'f handler_stream) server_response" where
      "safe_internal_server_error C semantics = Some r'" "finalize_response C (internal_error_response C) semantics = Inr r'" by blast
    with Inl r show ?thesis
      by (auto simp: answered_def finish_request_def finalize_and_track_response_def track_response_def)
  next
    case (Inr r')
    with r show ?thesis
      by (auto simp: answered_def finish_request_def finalize_and_track_response_def track_response_def)
  qed
qed

lemma native_match_no_panic: "fst (native_match_of C metadata parts cx) \<noteq> Some Match_Panic"
proof -
  have d: "hv_from_str C (to_decimal n) = Some (to_decimal n)" for n by (rule from_str_visible) (rule visible_strings)
  have "fst (route_probe C kind available meth rt) \<noteq> Some Match_Panic" for kind available meth rt
    by (simp add: route_probe_def probe_response_def Let_def d split: prod.splits)
  then show ?thesis
    by (auto simp: native_match_of_def route_def split: option.splits exact_route.splits)
qed

lemma native_response_Some:
  assumes "native \<noteq> Match_Panic"
  shows "fst (native_response C D F fops aw parts native cx) \<noteq> None"
proof -
  have d: "hv_from_str C (to_decimal n) = Some (to_decimal n)" for n by (rule from_str_visible) (rule visible_strings)
  show ?thesis
    using assms by (cases native) (auto simp: native_response_def serve_plan_def metrics_response_def d split: prod.splits)
qed

lemma stream_response_Some: "fst (snd (stream_response C aw coding semantics)) \<noteq> None"
  using safe_Some [of semantics]
  by (auto simp: stream_response_def split: sse_prepared.splits submit_error.splits)

lemma outcome_response_Some:
  fixes outcome :: "('h, 'f) roc_outcome"
  shows "fst (snd (outcome_response C D F fops W aw parts semantics outcome cx)) \<noteq> None"
proof (cases outcome)
  case (Outcome_Stream coding)
  let ?s = "stream_response C aw coding semantics :: bool \<times> ('h, 'f handler_stream) server_response option \<times> telemetry_event list"
  have "fst (snd ?s) \<noteq> None" by (rule stream_response_Some)
  with Outcome_Stream show ?thesis by (cases ?s) (simp add: outcome_response_def)
qed (use safe_Some [of semantics] in \<open>auto simp: outcome_response_def serve_plan_def Let_def split: sum.splits prod.splits\<close>)

text \<open>The application is called only after the executor has taken the job.\<close>

lemma roc_response_cases:
  assumes "roc_response C D F fops W encode aw parts semantics metadata cx = (early, response, events, cx')"
  shows "response \<noteq> None \<and> cx_requests cx' = cx_requests cx \<and>
    (cx_roc_executor cx' = cx_roc_executor cx \<or>
     (\<exists>admission. try_submit (cx_executor cx) (\<lambda>class. Ordinary_Job
        \<lparr> oj_parts = parts, oj_metadata = metadata, oj_body_limit = cx_body_max_bytes cx,
          oj_declared_length = content_length C (rq_headers parts),
          oj_accepted_encodings = from_headers C (rq_headers parts), oj_response_semantics = semantics \<rparr>)
        (cx_roc_executor cx) = Inr (admission, cx_roc_executor cx')))"
proof -
  let ?submit = "try_submit (cx_executor cx) (\<lambda>class. Ordinary_Job
        \<lparr> oj_parts = parts, oj_metadata = metadata, oj_body_limit = cx_body_max_bytes cx,
          oj_declared_length = content_length C (rq_headers parts),
          oj_accepted_encodings = from_headers C (rq_headers parts), oj_response_semantics = semantics \<rparr>)
        (cx_roc_executor cx)"
  have o: "r \<noteq> None \<and> cx_requests c' = cx_requests c \<and> cx_roc_executor c' = cx_roc_executor c"
    if "outcome_response C D F fops W aw parts semantics outcome c = (e, r, ev, c')" for e r ev c' outcome c
    using outcome_response_Some [of D F fops W aw parts semantics outcome c] that
    by (cases outcome) (auto simp: outcome_response_def serve_plan_def Let_def split: sum.splits prod.splits)
  show ?thesis
  proof (cases ?submit)
    case (Inl e)
    with assms show ?thesis by (cases e) (auto simp: roc_response_def Let_def)
  next
    case (Inr as)
    obtain admission executor where as: "as = (admission, executor)" by (cases as)
    let ?c = "cx\<lparr> cx_roc_executor := executor \<rparr>"
    have "response \<noteq> None \<and> cx_requests cx' = cx_requests cx \<and> cx_roc_executor cx' = executor"
    proof (cases "sub_class admission = Queued \<and> aw_queue_timed_out aw")
      case True
      with assms Inr as show ?thesis by (auto simp: roc_response_def Let_def)
    next
      case False
      show ?thesis
      proof (cases "aw_completion aw")
        case (Completed r)
        obtain e' r' ev' c' where "outcome_response C D F fops W aw parts semantics
            (outcome_from_roc C encode r (from_headers C (rq_headers parts)) semantics) ?c = (e', r', ev', c')"
          by (metis surj_pair)
        with assms Inr as False Completed o [OF this] show ?thesis by (auto simp: roc_response_def Let_def)
      qed (use assms Inr as False safe_Some [of semantics] in \<open>auto simp: roc_response_def Let_def\<close>)
    qed
    with Inr as show ?thesis by auto
  qed
qed

lemma native_response_context:
  "native_response C D F fops aw parts native cx = (response, events, cx') \<Longrightarrow>
     cx_requests cx' = cx_requests cx \<and> cx_roc_executor cx' = cx_roc_executor cx"
  by (cases native) (auto simp: native_response_def serve_plan_def split: prod.splits)

lemma admitted_rejection_Some:
  assumes "validate_parts C parts = Inr metadata" "admit_parts C l parts metadata = Inl rejection"
  shows "reject_request_metadata C rejection \<noteq> None"
proof -
  from assms(1) have "classify_target (rq_method parts) (rq_version parts) (rq_uri parts) = Inr (rm_target metadata)"
    by (auto simp: validate_parts_def elim: validate_components_cases)
  then have "normalized_target_len metadata (rq_uri parts) \<noteq> None"
    using classify_target_Inr by (auto simp: normalized_target_len_def split: target_kind.splits)
  with assms(2) show ?thesis
    by (auto simp: admit_parts_def reject_request_metadata_def split: option.splits if_splits)
qed

text \<open>The three ways of the handler after the tracker: refusal, a native answer, the application.\<close>

lemma handle_req_refused:
  fixes cx :: "('h, 'd, 'n, 'c) server_context"
  assumes b: "begin_request (cx_requests cx) = (True, requests)" and a: "rc_accepting (rt_count (cx_requests cx))"
    and "\<And>metadata. validate_parts C parts = Inr metadata \<Longrightarrow> \<exists>e. admit_parts C (cx_request_metadata cx) parts metadata = Inl e"
  shows "handled_ok C parts semantics cx (handle_req C D F fops W encode aw parts http1 semantics cx)"
proof -
  let ?cx = "cx\<lparr> cx_requests := requests \<rparr>" and ?to = "if http1 then Some (cx_response_idle_timeout cx) else None"
  obtain response where r: "response \<noteq> None"
    "handle_req C D F fops W encode aw parts http1 semantics cx =
       finish_request C semantics True http1 ?to response [Reject Rej_InvalidHeaders] ?cx"
  proof (cases "validate_parts C parts")
    case (Inl e)
    have "e = InvalidRequestTarget" using Inl validate_no_panic by (cases e) (auto simp: validate_parts_def)
    with Inl show ?thesis using that [of "Some (invalid_request_target_response C)"] by (simp add: handle_req_def b)
  next
    case (Inr metadata)
    with assms(3) obtain e where e: "admit_parts C (cx_request_metadata cx) parts metadata = Inl e" by blast
    from admitted_rejection_Some [OF Inr e] Inr e show ?thesis
      using that [of "reject_request_metadata C e"] by (simp add: handle_req_def b)
  qed
  show ?thesis by (rule handled_okI [of _ _ _ _ ?cx]) (simp_all add: r finish_answered a b)
qed

lemma handle_req_native:
  fixes cx :: "('h, 'd, 'n, 'c) server_context" and F :: "('d, 'f) cap_fs"
  assumes b: "begin_request (cx_requests cx) = (True, requests)" and a: "rc_accepting (rt_count (cx_requests cx))"
    and v: "validate_parts C parts = Inr metadata" "admit_parts C (cx_request_metadata cx) parts metadata = Inr u"
    and m: "native_match_of C metadata parts cx = (Some (native :: ('h, 'f handler_stream) native_match), routes)"
  shows "handled_ok C parts semantics cx (handle_req C D F fops W encode aw parts http1 semantics cx)"
proof -
  let ?cx = "cx\<lparr> cx_requests := requests \<rparr>" and ?to = "if http1 then Some (cx_response_idle_timeout cx) else None"
  let ?cr = "?cx\<lparr> cx_routes := routes \<rparr>"
  have mc: "native_match_of C metadata parts ?cx = (Some native, routes)"
    using m by (simp add: native_match_of_def split: option.splits)
  obtain response events cx' where n: "native_response C D F fops aw parts native ?cr = (response, events, cx')"
    by (cases "native_response C D F fops aw parts native ?cr")
  have "fst (native_match_of C metadata parts cx :: ('h, 'f handler_stream) native_match option \<times> native_router) \<noteq> Some Match_Panic"
    by (rule native_match_no_panic)
  then have "native \<noteq> Match_Panic" using m by auto
  from native_response_Some [OF this, of D F fops aw parts ?cr] n have r: "response \<noteq> None" by simp
  have h: "handle_req C D F fops W encode aw parts http1 semantics cx =
      finish_request C semantics True http1 ?to response events cx'"
    using v m n by (simp add: handle_req_def b mc)
  show ?thesis
    by (rule handled_okI [of _ _ _ _ cx']) (use native_response_context [OF n] in \<open>simp_all add: h r finish_answered a b\<close>)
qed

lemma handle_req_roc:
  fixes cx :: "('h, 'd, 'n, 'c) server_context" and F :: "('d, 'f) cap_fs"
  assumes b: "begin_request (cx_requests cx) = (True, requests)" and a: "rc_accepting (rt_count (cx_requests cx))"
    and v: "validate_parts C parts = Inr metadata" "admit_parts C (cx_request_metadata cx) parts metadata = Inr u"
    and m: "native_match_of C metadata parts cx = (None :: ('h, 'f handler_stream) native_match option, routes)"
  shows "handled_ok C parts semantics cx (handle_req C D F fops W encode aw parts http1 semantics cx)"
proof -
  let ?cx = "cx\<lparr> cx_requests := requests \<rparr>" and ?to = "if http1 then Some (cx_response_idle_timeout cx) else None"
  let ?cr = "?cx\<lparr> cx_routes := routes \<rparr>" and ?length = "content_length C (rq_headers parts)"
  have mc: "native_match_of C metadata parts ?cx = (None :: ('h, 'f handler_stream) native_match option, routes)"
    using m by (simp add: native_match_of_def split: option.splits)
  have nm: "fst (native_match_of C metadata parts cx :: ('h, unit) native_match option \<times> native_router) = None"
    using m native_match_None [of C metadata parts cx, where 'a = "'f handler_stream" and 'b = unit] by simp
  consider "\<not> request_headers_are_utf8 C (rq_headers parts)"
    | n where "request_headers_are_utf8 C (rq_headers parts)" "?length = Some n" "n > cx_body_max_bytes cx"
    | "request_headers_are_utf8 C (rq_headers parts)" "\<forall>n. ?length = Some n \<longrightarrow> n \<le> cx_body_max_bytes cx"
    by (meson not_le)
  then show ?thesis
  proof cases
    case 3
    obtain early response events cx' where r: "roc_response C D F fops W encode aw parts semantics metadata ?cr = (early, response, events, cx')"
      by (metis surj_pair)
    note rc = roc_response_cases [OF r]
    have h: "handle_req C D F fops W encode aw parts http1 semantics cx =
        finish_request C semantics True http1 (if early then Some (cx_body_idle_timeout cx') else ?to) response events cx'"
      using v m 3 r by (cases ?length) (simp_all add: handle_req_def b mc)
    have "cx_roc_executor cx' = cx_roc_executor cx \<or> vetted_submission C parts semantics cx (cx_roc_executor cx')"
      using rc a v nm 3 by (auto simp: vetted_submission_def request_headers_are_utf8_def)
    with rc show ?thesis by (intro handled_okI [of _ _ _ _ cx']) (simp_all add: h finish_answered a b)
  qed (use v m in \<open>auto intro!: handled_okI [of _ _ _ _ ?cr] simp: handle_req_def b mc finish_answered a\<close>)
qed

end

section \<open>Properties\<close>


definition sample_context :: "((string \<times> string) list, string list, nat, (shutdown_reason option \<times> nat)) server_context" where
  "sample_context = \<lparr>
     cx_requests = new_tracker counting_notify,
     cx_request_metadata = \<lparr> max_target_bytes = 100, max_header_list_bytes = 1000, max_header_fields = 10 \<rparr>,
     cx_routes = \<lparr> nr_exact = [(''/live'', Exact_Liveness)], nr_prefixes = [], nr_probes = zero_counters \<rparr>,
     cx_readiness = \<lparr> rd_gates = \<lparr> hh_slots = [], hh_state =
        \<lparr> hs_free = [], hs_generations = [], hs_slots = [], hs_active = 0, hs_high_water = 0 \<rparr>, hh_start = 0, hh_stride = 24 \<rparr>,
       rd_cells = [] \<rparr>,
     cx_files = \<lparr> fs_roots = Map.empty, fs_permits = 1, fs_chunk_bytes = 1 \<rparr>,
     cx_body_max_bytes = 10,
     cx_executor = \<lparr> ex_workers = 1, ex_capacity = 2 \<rparr>,
     cx_roc_executor = new_executor_state\<lparr> es_outstanding := 1 \<rparr>,
     cx_shutdown = new_controller counting_watch,
     cx_response_idle_timeout = 30, cx_body_idle_timeout = 5 \<rparr>"

definition sample_request :: "(string \<times> string) list request_head" where
  "sample_request = \<lparr> rq_method = ''GET'', rq_version = HTTP_2,
     rq_uri = \<lparr> uri_scheme = Some ''https'', uri_authority = Some ''a'',
       uri_path_and_query = Some \<lparr> pq_str = ''/x'', pq_path = ''/x'', pq_query = None \<rparr> \<rparr>,
     rq_headers = [(''accept'', ''*'')] \<rparr>"

definition sample_awaited :: awaited where
  "sample_awaited = \<lparr> aw_queue_timed_out = True, aw_completion = Completion_Lost, aw_stream_slot = True,
     aw_brotli_lane = True, aw_sse = Sse_Prepared, aw_spawn_error = None, aw_metrics = [] \<rparr>"

definition sample_fops :: "string list file_ops" where
  "sample_fops = \<lparr> fo_metadata = (\<lambda>f. None), fo_seek = (\<lambda>f k. None), fo_read_exact = (\<lambda>f k. None) \<rparr>"

definition sample_handled ::
  "(((string \<times> string) list, string list) tracked_response \<times> telemetry_event list \<times>
     ((string \<times> string) list, string list, nat, (shutdown_reason option \<times> nat)) server_context) option" where
  "sample_handled = handle_req list_http decimal_date (path_fs {} {}) sample_fops counting_watch (\<lambda>coding bytes. None)
     sample_awaited sample_request False \<lparr> rs_method = ''GET'', rs_version = HTTP_2 \<rparr> sample_context"


text \<open>
  Two observations.  The early returns of the handler pass on the idle timeout of the request body
  in place of the one for responses: for a request that is not HTTP/1, where other responses have no
  such timeout, a queue timeout sets one.  And the check for UTF-8 refuses every field with a
  character beyond ASCII.
\<close>

lemma queue_timeout_response_timeout:
  "map_option (\<lambda>(t, events, cx). (rsp_status (tk_response t), tk_body_idle_timeout t)) sample_handled = Some (503, Some 5)"
  by code_simp

lemma utf8_header_refused:
  "utf8_valid [CHR 0xC3, CHR 0xA9] \<and> \<not> request_headers_are_utf8 list_http [(''x'', [CHR 0xC3, CHR 0xA9])]"
  by code_simp

end
