(* ===== verification/Request_Body.thy ===== *)
theory Request_Body
  imports Prelude "HOL-Library.Sublist"
begin

text \<open>
  \<open>src/src/request_body.rs\<close>: the hand-over of a request body from the pump, a task that owns the
  incoming stream, to the thread that reads it for the application, through a bounded channel.
  The functions are the sections of the code between two points where another thread can act: a
  read up to its first \<open>blocking_recv\<close>, the handling of one message, the three phases of \<open>stop\<close> (the
  terminal, the control, the wake message) and one turn of the pump.  The step relation interleaves
  them; within a section the loads and stores of one thread are taken as one action.

  The channel is tokio's, a parameter: messages are received in the order they were sent, and the
  predicate \<open>accepts\<close> tells from the number of messages in the queue and from a permit held by a sender
  that waits whether there is room for one more.  The law of \<open>mpsc_laws\<close> is that a message is
  refused only when the queue and the permit use up the capacity.  A permit may be granted to the
  waiting pump some time before its message is in the queue; the steps leave open how long.  The
  shared state keeps a sender of its own, so the channel is not closed while a body can be read.

  A read holds the reader lock from its first step to its result.  The further rounds of \<open>read_all\<close>
  are reads of their own here, between which other reads are allowed.  Dropping the last handle
  (which closes the control channel), sinks, a poisoned lock, and the Roc list that \<open>read_all\<close> builds
  are not modelled.
\<close>

datatype body_error =
  TooLarge nat nat | Timeout | ClientDisconnected | InvalidBody string | RequestFinished
| ConcurrentRead | Cancelled | Body_Stopping

datatype pump_error = Pump_ClientDisconnected | Pump_InvalidBody string

datatype read_result = Chunk_Read string | Read_End

datatype terminal = Terminal_End | Terminal_Error body_error

datatype pump_message = Chunk string | Msg_End | Msg_Error body_error | Wake

datatype pump_control = Running | Drain | Cancel

record body_state =
  bs_terminal :: "terminal option"
  bs_control :: pump_control
  bs_hard_limit :: nat
  bs_narrow_limit :: nat
  bs_delivered :: nat

section \<open>The reader\<close>

definition set_terminal :: "terminal \<Rightarrow> body_state \<Rightarrow> body_state" where
  "set_terminal t s = (if bs_terminal s = None then s\<lparr> bs_terminal := Some t \<rparr> else s)"

fun merge_control :: "pump_control \<Rightarrow> pump_control \<Rightarrow> pump_control" where
  "merge_control Cancel _ = Cancel"
| "merge_control _ Cancel = Cancel"
| "merge_control Drain _ = Drain"
| "merge_control _ Drain = Drain"
| "merge_control Running Running = Running"

definition stop_control :: "body_state \<Rightarrow> body_state" where
  "stop_control s =
     (let control = (case the (bs_terminal s) of Terminal_Error (TooLarge _ _) \<Rightarrow> Drain | _ \<Rightarrow> Cancel) in
      s\<lparr> bs_control := merge_control (bs_control s) control \<rparr>)"

definition effective_limit :: "nat \<Rightarrow> body_state \<Rightarrow> nat \<times> body_state" where
  "effective_limit requested_limit s =
     (let narrow = min (bs_narrow_limit s) (min requested_limit (bs_hard_limit s)) in
      (narrow, s\<lparr> bs_narrow_limit := narrow \<rparr>))"

definition check_terminal :: "body_state \<Rightarrow> (body_error + read_result) option" where
  "check_terminal s =
     map_option (\<lambda>t. case t of Terminal_End \<Rightarrow> Inr Read_End | Terminal_Error e \<Rightarrow> Inl e) (bs_terminal s)"

text \<open>A section of the reader ends with the result of the read or waiting for a message; the last
  component tells whether it has called \<open>stop\<close>, whose first phase is the change of the terminal.\<close>

datatype progress = Return "body_error + read_result" | Await nat

definition receive_enter :: "nat \<Rightarrow> body_state \<Rightarrow> progress \<times> body_state \<times> bool" where
  "receive_enter requested_limit s =
     (case check_terminal s of
        Some result \<Rightarrow> (Return result, s, False)
      | None \<Rightarrow>
          (case effective_limit requested_limit s of
             (limit, s) \<Rightarrow>
               if bs_delivered s > limit
               then (let error = TooLarge limit (bs_delivered s) in
                     (Return (Inl error), set_terminal (Terminal_Error error) s, True))
               else (Await limit, s, False)))"

definition read_all_enter :: "nat \<Rightarrow> body_state \<Rightarrow> progress \<times> body_state \<times> bool" where
  "read_all_enter requested_limit s =
     (case effective_limit requested_limit s of
        (limit, s) \<Rightarrow>
          if bs_delivered s > limit
          then (let error = TooLarge limit (bs_delivered s) in
                (Return (Inl error), set_terminal (Terminal_Error error) s, True))
          else receive_enter requested_limit s)"

definition receive_message :: "nat \<Rightarrow> pump_message \<Rightarrow> body_state \<Rightarrow> progress \<times> body_state \<times> bool" where
  "receive_message limit m s =
     (case check_terminal s of
        Some result \<Rightarrow> (Return result, s, False)
      | None \<Rightarrow>
          (case m of
             Chunk bytes \<Rightarrow>
               if bytes = [] then (Await limit, s, False)
               else (let received_at_least = saturating_add (bs_delivered s) (length bytes) in
                     if received_at_least > limit
                     then (let error = TooLarge limit received_at_least in
                           (Return (Inl error), set_terminal (Terminal_Error error) s, True))
                     else (Return (Inr (Chunk_Read bytes)), s\<lparr> bs_delivered := received_at_least \<rparr>, False))
           | Msg_End \<Rightarrow> (Return (Inr Read_End), set_terminal Terminal_End s, False)
           | Msg_Error error \<Rightarrow> (Return (Inl error), set_terminal (Terminal_Error error) s, True)
           | Wake \<Rightarrow> (Await limit, s, False)))"

section \<open>The pump\<close>

text \<open>The pump is in its loop, sends the pieces of a frame, sends its last message, or has returned.\<close>

datatype pump_state =
  Pump_Loop bool | Pump_Sending "string list" | Pump_Last pump_message | Pump_Done

datatype frame_event = Frame string | Stream_End | Stream_Error pump_error | Idle_Timeout

function chunk_frame :: "nat \<Rightarrow> string \<Rightarrow> string list" where
  "chunk_frame n frame = (if frame = [] \<or> n = 0 then [] else take n frame # chunk_frame n (drop n frame))"
  by pat_completeness auto
termination
  by (relation "measure (\<lambda>(n, frame). length frame)") auto

declare chunk_frame.simps [simp del]

text \<open>A turn of the pump on an event of the stream, with the number of bytes received so far.\<close>

definition pump_event :: "nat \<Rightarrow> nat \<Rightarrow> frame_event \<Rightarrow> bool \<Rightarrow> nat \<Rightarrow> pump_state \<times> nat" where
  "pump_event hard_limit chunk_size e draining received =
     (case e of
        Idle_Timeout \<Rightarrow> (Pump_Last (Msg_Error Timeout), received)
      | Stream_End \<Rightarrow> (if draining then Pump_Done else Pump_Last Msg_End, received)
      | Stream_Error error \<Rightarrow> (if draining then Pump_Done
          else Pump_Last (Msg_Error (case error of Pump_ClientDisconnected \<Rightarrow> ClientDisconnected
                                     | Pump_InvalidBody message \<Rightarrow> InvalidBody message)), received)
      | Frame frame \<Rightarrow>
          if frame = [] then (Pump_Loop draining, received)
          else (let frame_end = saturating_add received (length frame) in
                if frame_end > hard_limit
                then (if draining then Pump_Done else Pump_Last (Msg_Error (TooLarge hard_limit frame_end)), received)
                else (if draining then Pump_Loop True else Pump_Sending (chunk_frame chunk_size frame), frame_end)))"

text \<open>A turn on a change of the control, inside the loop and inside \<open>send\<close>.\<close>

definition pump_control_turn :: "pump_control \<Rightarrow> pump_state \<Rightarrow> pump_state" where
  "pump_control_turn control p =
     (case p of
        Pump_Loop draining \<Rightarrow>
          (case control of Running \<Rightarrow> p | Drain \<Rightarrow> Pump_Loop True | Cancel \<Rightarrow> Pump_Done)
      | Pump_Sending (piece # pieces) \<Rightarrow>
          (case control of Running \<Rightarrow> Pump_Sending pieces | Drain \<Rightarrow> Pump_Loop True | Cancel \<Rightarrow> Pump_Done)
      | Pump_Last m \<Rightarrow> Pump_Done
      | _ \<Rightarrow> p)"

section \<open>Interleavings\<close>

locale mpsc_laws =
  fixes capacity :: nat and accepts :: "nat \<Rightarrow> bool \<Rightarrow> bool"
  assumes refuses_full: "\<not> accepts n reserved \<Longrightarrow> capacity \<le> n + of_bool reserved"
begin

lemma refused_not_empty:
  assumes "2 \<le> capacity" "\<not> accepts n reserved"
  shows "0 < n"
  using refuses_full [OF assms(2)] assms(1) by (cases reserved) simp_all

end

definition bounded_accepts :: "nat \<Rightarrow> nat \<Rightarrow> bool \<Rightarrow> bool" where
  "bounded_accepts capacity n reserved \<longleftrightarrow> n + of_bool reserved < capacity"

interpretation bounded_mpsc: mpsc_laws capacity "bounded_accepts capacity" for capacity
  by unfold_locales (simp add: bounded_accepts_def)

datatype reader_state = Reader_Idle | Reader_Waiting nat | Reader_Got nat pump_message

text \<open>
  The world has the shared state, the channel with the permit a waiting pump may hold, the two
  threads, the control the pump has seen last, and the calls of \<open>stop\<close> that have set the terminal but
  not yet the control, or the control but not yet sent the wake message; and, to speak about them,
  the bytes of the frames that the pump took for delivery, whether the stream has ended, and the
  chunks and results the reader got.
\<close>

record body_world =
  bw_state :: body_state
  bw_queue :: "pump_message list"
  bw_reserved :: bool
  bw_reader :: reader_state
  bw_pump :: pump_state
  bw_received :: nat
  bw_seen :: pump_control
  bw_stopping :: nat
  bw_wakes :: nat
  bw_input :: string
  bw_ended :: bool
  bw_output :: "string list"
  bw_results :: "(body_error + read_result) list"

definition register_body :: "nat \<Rightarrow> body_world" where
  "register_body hard_limit =
     \<lparr> bw_state = \<lparr> bs_terminal = None, bs_control = Running, bs_hard_limit = hard_limit,
         bs_narrow_limit = hard_limit, bs_delivered = 0 \<rparr>,
       bw_queue = [], bw_reserved = False, bw_reader = Reader_Idle, bw_pump = Pump_Loop False,
       bw_received = 0, bw_seen = Running, bw_stopping = 0, bw_wakes = 0, bw_input = [],
       bw_ended = False, bw_output = [], bw_results = [] \<rparr>"

definition stop_wake :: "(nat \<Rightarrow> bool \<Rightarrow> bool) \<Rightarrow> body_world \<Rightarrow> body_world" where
  "stop_wake accepts w =
     (if accepts (length (bw_queue w)) (bw_reserved w) then w\<lparr> bw_queue := bw_queue w @ [Wake] \<rparr> else w)"

definition after_section :: "progress \<times> body_state \<times> bool \<Rightarrow> body_world \<Rightarrow> body_world" where
  "after_section r w =
     (case r of (p, s, stopped) \<Rightarrow>
        w\<lparr> bw_state := s,
           bw_stopping := bw_stopping w + of_bool stopped,
           bw_reader := (case p of Return _ \<Rightarrow> Reader_Idle | Await limit \<Rightarrow> Reader_Waiting limit),
           bw_output := bw_output w @ (case p of Return (Inr (Chunk_Read bytes)) \<Rightarrow> [bytes] | _ \<Rightarrow> []),
           bw_results := bw_results w @ (case p of Return result \<Rightarrow> [result] | _ \<Rightarrow> []) \<rparr>)"

definition pump_sends :: "pump_state \<Rightarrow> pump_message option" where
  "pump_sends p =
     (case p of Pump_Sending (piece # _) \<Rightarrow> Some (Chunk piece) | Pump_Last m \<Rightarrow> Some m | _ \<Rightarrow> None)"

definition pump_sent :: "pump_state \<Rightarrow> pump_state" where
  "pump_sent p = (case p of Pump_Sending (_ # pieces) \<Rightarrow> Pump_Sending pieces | _ \<Rightarrow> Pump_Done)"

inductive body_step :: "(nat \<Rightarrow> bool \<Rightarrow> bool) \<Rightarrow> nat \<Rightarrow> body_world \<Rightarrow> body_world \<Rightarrow> bool" for accepts chunk_size where
  step_read: "bw_reader w = Reader_Idle \<Longrightarrow>
    body_step accepts chunk_size w (after_section (receive_enter requested_limit (bw_state w)) w)"
| step_read_all: "bw_reader w = Reader_Idle \<Longrightarrow>
    body_step accepts chunk_size w (after_section (read_all_enter requested_limit (bw_state w)) w)"
| step_busy: "bw_reader w \<noteq> Reader_Idle \<Longrightarrow>
    body_step accepts chunk_size w (w\<lparr> bw_results := bw_results w @ [Inl ConcurrentRead] \<rparr>)"
| step_recv: "bw_reader w = Reader_Waiting limit \<Longrightarrow> bw_queue w = m # queue \<Longrightarrow>
    body_step accepts chunk_size w (w\<lparr> bw_queue := queue, bw_reader := Reader_Got limit m \<rparr>)"
| step_message: "bw_reader w = Reader_Got limit m \<Longrightarrow>
    body_step accepts chunk_size w (after_section (receive_message limit m (bw_state w)) w)"
| step_stop: "body_step accepts chunk_size w
    (w\<lparr> bw_state := set_terminal (Terminal_Error error) (bw_state w), bw_stopping := bw_stopping w + 1 \<rparr>)"
| step_stop_control: "bw_stopping w > 0 \<Longrightarrow> body_step accepts chunk_size w
    (w\<lparr> bw_state := stop_control (bw_state w), bw_stopping := bw_stopping w - 1, bw_wakes := bw_wakes w + 1 \<rparr>)"
| step_stop_wake: "bw_wakes w > 0 \<Longrightarrow>
    body_step accepts chunk_size w ((stop_wake accepts w)\<lparr> bw_wakes := bw_wakes w - 1 \<rparr>)"
| step_event: "bw_pump w = Pump_Loop draining \<Longrightarrow> bs_control (bw_state w) = bw_seen w \<Longrightarrow>
    pump_event (bs_hard_limit (bw_state w)) chunk_size e draining (bw_received w) = (p, received) \<Longrightarrow>
    body_step accepts chunk_size w (w\<lparr> bw_pump := p, bw_received := received,
      bw_input := bw_input w @ (case (e, p) of (Frame frame, Pump_Sending _) \<Rightarrow> frame | _ \<Rightarrow> []),
      bw_ended := (e = Stream_End) \<rparr>)"
| step_control: "bs_control (bw_state w) \<noteq> bw_seen w \<Longrightarrow> bw_pump w \<noteq> Pump_Sending [] \<Longrightarrow>
    body_step accepts chunk_size w (w\<lparr> bw_seen := bs_control (bw_state w), bw_reserved := False,
      bw_pump := pump_control_turn (bs_control (bw_state w)) (bw_pump w) \<rparr>)"
| step_permit: "pump_sends (bw_pump w) \<noteq> None \<Longrightarrow> \<not> bw_reserved w \<Longrightarrow> accepts (length (bw_queue w)) (bw_reserved w) \<Longrightarrow>
    body_step accepts chunk_size w (w\<lparr> bw_reserved := True \<rparr>)"
| step_send: "pump_sends (bw_pump w) = Some m \<Longrightarrow> bw_reserved w \<Longrightarrow> bs_control (bw_state w) = bw_seen w \<Longrightarrow>
    body_step accepts chunk_size w
      (w\<lparr> bw_queue := bw_queue w @ [m], bw_reserved := False, bw_pump := pump_sent (bw_pump w) \<rparr>)"
| step_sent: "bw_pump w = Pump_Sending [] \<Longrightarrow>
    body_step accepts chunk_size w (w\<lparr> bw_pump := Pump_Loop False \<rparr>)"

section \<open>The invariant\<close>

fun message_bytes :: "pump_message \<Rightarrow> string" where
  "message_bytes (Chunk bytes) = bytes"
| "message_bytes _ = []"

definition in_flight :: "body_world \<Rightarrow> pump_message list" where
  "in_flight w = (case bw_reader w of Reader_Got _ m \<Rightarrow> [m] | _ \<Rightarrow> []) @ bw_queue w"

definition pending :: "body_world \<Rightarrow> string list" where
  "pending w = (case bw_pump w of Pump_Sending pieces \<Rightarrow> pieces | _ \<Rightarrow> [])"

fun end_last :: "pump_message list \<Rightarrow> bool" where
  "end_last [] = True"
| "end_last (Msg_End # ms) = list_all (\<lambda>m. m = Wake) ms"
| "end_last (_ # ms) = end_last ms"

definition reader_limit :: "reader_state \<Rightarrow> nat" where
  "reader_limit r = (case r of Reader_Idle \<Rightarrow> 0 | Reader_Waiting limit \<Rightarrow> limit | Reader_Got limit _ \<Rightarrow> limit)"

definition limits_ok :: "nat \<Rightarrow> body_world \<Rightarrow> bool" where
  "limits_ok hard_limit w \<longleftrightarrow>
     bs_hard_limit (bw_state w) = hard_limit \<and> bs_narrow_limit (bw_state w) \<le> hard_limit \<and>
     reader_limit (bw_reader w) \<le> hard_limit \<and>
     bs_delivered (bw_state w) = length (concat (bw_output w)) \<and> bs_delivered (bw_state w) \<le> hard_limit"

definition stopped_ok :: "body_world \<Rightarrow> bool" where
  "stopped_ok w \<longleftrightarrow>
     (bw_stopping w > 0 \<longrightarrow> bs_terminal (bw_state w) \<noteq> None) \<and>
     (bs_terminal (bw_state w) = None \<longrightarrow> bs_control (bw_state w) = Running) \<and>
     (bs_control (bw_state w) = Running \<longrightarrow> bw_seen w = Running) \<and>
     (bw_seen w = Running \<longrightarrow> bw_pump w \<noteq> Pump_Loop True) \<and>
     (\<forall>bytes. bw_pump w \<noteq> Pump_Last (Chunk bytes))"

definition order_ok :: "body_world \<Rightarrow> bool" where
  "order_ok w \<longleftrightarrow>
     (bs_terminal (bw_state w) = None \<longrightarrow>
        bw_input w = concat (bw_output w) @ concat (map message_bytes (in_flight w)) @ concat (pending w) \<and>
        end_last (in_flight w)) \<and>
     (Msg_End \<in> set (in_flight w) \<longrightarrow> bw_ended w \<and> bw_pump w = Pump_Done) \<and>
     (bw_pump w = Pump_Last Msg_End \<longrightarrow> bw_ended w) \<and>
     (bw_ended w \<longrightarrow> bw_pump w \<in> {Pump_Last Msg_End, Pump_Done}) \<and>
     prefix (concat (bw_output w)) (bw_input w) \<and>
     (bs_terminal (bw_state w) = Some Terminal_End \<longrightarrow> bw_ended w \<and> concat (bw_output w) = bw_input w) \<and>
     (Inr Read_End \<in> set (bw_results w) \<longrightarrow> bs_terminal (bw_state w) = Some Terminal_End)"

definition sizes_ok :: "nat \<Rightarrow> body_world \<Rightarrow> bool" where
  "sizes_ok chunk_size w \<longleftrightarrow>
     (\<forall>piece\<in>set (pending w) \<union> set (bw_output w) \<union> {bytes. Chunk bytes \<in> set (in_flight w)}.
        piece \<noteq> [] \<and> length piece \<le> chunk_size)"

definition wake_ok :: "body_world \<Rightarrow> bool" where
  "wake_ok w \<longleftrightarrow>
     (\<forall>limit. bs_terminal (bw_state w) \<noteq> None \<longrightarrow> bw_reader w = Reader_Waiting limit \<longrightarrow>
        bw_queue w \<noteq> [] \<or> bw_wakes w > 0 \<or> bw_stopping w > 0)"

lemma merge_control_stopped: "c \<noteq> Running \<Longrightarrow> merge_control d c \<noteq> Running"
  by (cases d; cases c) simp_all

lemma stop_control_simps [simp]:
  "bs_terminal (stop_control s) = bs_terminal s"
  "bs_hard_limit (stop_control s) = bs_hard_limit s"
  "bs_narrow_limit (stop_control s) = bs_narrow_limit s"
  "bs_delivered (stop_control s) = bs_delivered s"
  by (simp_all add: stop_control_def Let_def)

lemma stop_control_stopped [simp]: "bs_control (stop_control s) \<noteq> Running"
  by (simp add: stop_control_def Let_def merge_control_stopped split: terminal.split body_error.split)

lemma chunk_frame_concat: "0 < n \<Longrightarrow> concat (chunk_frame n frame) = frame"
  by (induction n frame rule: chunk_frame.induct) (simp add: chunk_frame.simps)

lemma chunk_frame_sizes: "piece \<in> set (chunk_frame n frame) \<Longrightarrow> piece \<noteq> [] \<and> length piece \<le> n"
proof (induction n frame rule: chunk_frame.induct)
  case (1 n frame)
  then show ?case
    by (cases "frame = [] \<or> n = 0") (auto simp: chunk_frame.simps [of n frame])
qed

lemmas section_defs =
  after_section_def receive_enter_def read_all_enter_def receive_message_def effective_limit_def
  check_terminal_def set_terminal_def Let_def

lemmas pump_defs =
  pump_event_def pump_control_turn_def pump_sends_def pump_sent_def Let_def

lemmas pump_splits =
  if_splits frame_event.splits pump_control.splits pump_state.splits list.splits

text \<open>What a section does to the limits: a wait is for at most the hard limit, and the count of
  delivered bytes grows by what the section returns.\<close>

definition limited_section :: "nat \<Rightarrow> body_state \<Rightarrow> progress \<times> body_state \<times> bool \<Rightarrow> bool" where
  "limited_section hard_limit s r =
     (case r of (p, s', _) \<Rightarrow>
        bs_hard_limit s' = hard_limit \<and> bs_narrow_limit s' \<le> hard_limit \<and> bs_delivered s' \<le> hard_limit \<and>
        (case p of
           Await limit \<Rightarrow> limit \<le> hard_limit \<and> bs_delivered s' = bs_delivered s \<and> bs_terminal s' = None
         | Return (Inr (Chunk_Read bytes)) \<Rightarrow> bs_delivered s' = bs_delivered s + length bytes
         | _ \<Rightarrow> bs_delivered s' = bs_delivered s))"

lemma limited_receive_enter:
  assumes "bs_hard_limit s = hard_limit" "bs_narrow_limit s \<le> hard_limit" "bs_delivered s \<le> hard_limit"
  shows "limited_section hard_limit s (receive_enter requested_limit s)"
proof (cases "bs_terminal s")
  case None
  with assms show ?thesis
    by (simp add: limited_section_def receive_enter_def effective_limit_def check_terminal_def set_terminal_def
      Let_def min.coboundedI1)
next
  case (Some t)
  with assms show ?thesis
    by (cases t) (simp_all add: limited_section_def receive_enter_def check_terminal_def)
qed

lemma limited_read_all_enter:
  assumes "bs_hard_limit s = hard_limit" "bs_narrow_limit s \<le> hard_limit" "bs_delivered s \<le> hard_limit"
  shows "limited_section hard_limit s (read_all_enter requested_limit s)"
proof -
  obtain limit s' where e: "effective_limit requested_limit s = (limit, s')"
    by (cases "effective_limit requested_limit s")
  have s': "bs_hard_limit s' = hard_limit" "bs_narrow_limit s' \<le> hard_limit" "bs_delivered s' = bs_delivered s"
    using e assms by (auto simp: effective_limit_def Let_def)
  have same: "limited_section hard_limit s r = limited_section hard_limit s' r" for r
    unfolding limited_section_def s'(3) by (rule refl)
  show ?thesis
  proof (cases "bs_delivered s' > limit")
    case True
    with s' assms(3) show ?thesis
      by (simp add: read_all_enter_def e Let_def limited_section_def set_terminal_def)
  next
    case False
    with s' assms(3) show ?thesis
      using limited_receive_enter [of s' hard_limit requested_limit] by (simp add: read_all_enter_def e same)
  qed
qed

lemma limited_receive_message:
  assumes "bs_hard_limit s = hard_limit" "bs_narrow_limit s \<le> hard_limit" "bs_delivered s \<le> hard_limit"
    and "limit \<le> hard_limit" "hard_limit < u64_max"
  shows "limited_section hard_limit s (receive_message limit m s)"
proof (cases "bs_terminal s")
  case None
  with assms show ?thesis
    by (cases m) (simp_all add: limited_section_def receive_message_def check_terminal_def set_terminal_def
      saturating_add_def Let_def)
next
  case (Some t)
  with assms show ?thesis
    by (cases t) (simp_all add: limited_section_def receive_message_def check_terminal_def)
qed

lemma limits_ok_section:
  assumes "limits_ok hard_limit w" "limited_section hard_limit (bw_state w) r"
  shows "limits_ok hard_limit (after_section r w)"
  using assms
  by (cases r) (auto simp: limits_ok_def limited_section_def after_section_def reader_limit_def
    split: progress.splits sum.splits read_result.splits)

lemma limits_ok_state:
  "limits_ok hard_limit w \<Longrightarrow> bs_hard_limit (bw_state w) = hard_limit"
  "limits_ok hard_limit w \<Longrightarrow> bs_narrow_limit (bw_state w) \<le> hard_limit"
  "limits_ok hard_limit w \<Longrightarrow> bs_delivered (bw_state w) \<le> hard_limit"
  by (simp_all add: limits_ok_def)

lemma limits_ok_step:
  assumes "body_step accepts chunk_size w w'" "hard_limit < u64_max" "limits_ok hard_limit w"
  shows "limits_ok hard_limit w'"
  using assms(1)
proof (cases rule: body_step.cases)
  case (step_read requested_limit)
  with assms(3) show ?thesis by (simp add: limits_ok_section limited_receive_enter limits_ok_state)
next
  case (step_read_all requested_limit)
  with assms(3) show ?thesis by (simp add: limits_ok_section limited_read_all_enter limits_ok_state)
next
  case (step_message limit m)
  then have "limit \<le> hard_limit"
    using assms(3) by (simp add: limits_ok_def reader_limit_def)
  with step_message assms(2,3) show ?thesis
    by (simp add: limits_ok_section limited_receive_message limits_ok_state)
qed (use assms(3) in \<open>simp_all add: limits_ok_def reader_limit_def set_terminal_def stop_wake_def\<close>)

lemma wake_ok_section:
  assumes "limited_section hard_limit (bw_state w) r"
  shows "wake_ok (after_section r w)"
  using assms
  by (cases r) (auto simp: wake_ok_def limited_section_def after_section_def split: progress.splits)

lemma wake_ok_step:
  assumes "mpsc_laws capacity accepts" "body_step accepts chunk_size w w'" "2 \<le> capacity"
    and "hard_limit < u64_max" and limits: "limits_ok hard_limit w" and "wake_ok w"
  shows "wake_ok w'"
  using assms(2)
proof (cases rule: body_step.cases)
  case (step_read requested_limit)
  with limits show ?thesis
    by (simp add: wake_ok_section [OF limited_receive_enter] limits_ok_state)
next
  case (step_read_all requested_limit)
  with limits show ?thesis
    by (simp add: wake_ok_section [OF limited_read_all_enter] limits_ok_state)
next
  case (step_message limit m)
  then have "limit \<le> hard_limit"
    using limits by (simp add: limits_ok_def reader_limit_def)
  with step_message limits assms(4) show ?thesis
    by (simp add: wake_ok_section [OF limited_receive_message] limits_ok_state)
next
  case step_stop_wake
  with assms(6) mpsc_laws.refused_not_empty [OF assms(1,3), of "length (bw_queue w)" "bw_reserved w"] show ?thesis
    by (auto simp: wake_ok_def stop_wake_def)
qed (use assms(6) in \<open>auto simp: wake_ok_def set_terminal_def\<close>)

lemma end_last_wake [simp]: "end_last (ms @ [Wake]) = end_last ms"
  by (induction ms rule: end_last.induct) simp_all

lemma end_last_snoc: "Msg_End \<notin> set ms \<Longrightarrow> end_last (ms @ [m])"
proof (induction ms)
  case Nil
  then show ?case by (cases m) simp_all
next
  case (Cons a ms)
  then show ?case by (cases a) simp_all
qed

text \<open>A section that delivers nothing keeps the terminal or sets it to an error, and reports the end
  only when the terminal says so.\<close>

definition quiet_section :: "body_state \<Rightarrow> progress \<times> body_state \<times> bool \<Rightarrow> bool" where
  "quiet_section s r =
     (case r of (p, s', _) \<Rightarrow>
        (bs_terminal s' = bs_terminal s \<or>
         bs_terminal s = None \<and> bs_terminal s' \<noteq> None \<and> bs_terminal s' \<noteq> Some Terminal_End) \<and>
        (case p of
           Return (Inr (Chunk_Read _)) \<Rightarrow> False
         | Return (Inr Read_End) \<Rightarrow> bs_terminal s = Some Terminal_End
         | _ \<Rightarrow> True))"

lemma quiet_receive_enter: "quiet_section s (receive_enter requested_limit s)"
  by (simp add: quiet_section_def receive_enter_def check_terminal_def effective_limit_def set_terminal_def Let_def
    split: option.split terminal.split)

lemma effective_limit_terminal: "effective_limit requested_limit s = (limit, s') \<Longrightarrow> bs_terminal s' = bs_terminal s"
  by (auto simp: effective_limit_def Let_def)

lemma quiet_read_all_enter: "quiet_section s (read_all_enter requested_limit s)"
proof -
  obtain limit s' where e: "effective_limit requested_limit s = (limit, s')"
    by (cases "effective_limit requested_limit s")
  note t = effective_limit_terminal [OF e]
  have "quiet_section s r = quiet_section s' r" for r
    unfolding quiet_section_def t by (rule refl)
  then show ?thesis
    using quiet_receive_enter [of s' requested_limit]
    by (simp add: read_all_enter_def e Let_def) (simp add: quiet_section_def set_terminal_def)
qed

lemma quiet_section_same:
  assumes "bw_reader w = Reader_Idle" "quiet_section (bw_state w) r"
  shows "in_flight (after_section r w) = in_flight w" "pending (after_section r w) = pending w"
    "bw_output (after_section r w) = bw_output w"
proof -
  obtain p s b where r: "r = (p, s, b)"
    by (cases r)
  show "in_flight (after_section r w) = in_flight w" "pending (after_section r w) = pending w"
    using assms(1) by (simp_all add: in_flight_def pending_def after_section_def r split: progress.split)
  show "bw_output (after_section r w) = bw_output w"
    using assms(2) by (auto simp: after_section_def r quiet_section_def split: progress.split sum.split read_result.split)
qed

lemma order_ok_quiet:
  assumes "order_ok w" "bw_reader w = Reader_Idle" "quiet_section (bw_state w) r"
  shows "order_ok (after_section r w)"
proof -
  obtain p s b where r: "r = (p, s, b)"
    by (cases r)
  have same: "bw_input (after_section r w) = bw_input w" "bw_ended (after_section r w) = bw_ended w"
    "bw_pump (after_section r w) = bw_pump w" "bs_terminal (bw_state (after_section r w)) = bs_terminal s"
    by (simp_all add: after_section_def r)
  have results: "Inr Read_End \<in> set (bw_results (after_section r w)) \<Longrightarrow>
      Inr Read_End \<in> set (bw_results w) \<or> bs_terminal (bw_state w) = Some Terminal_End"
    using assms(3) by (auto simp: after_section_def r quiet_section_def split: progress.splits)
  have "bs_terminal s = bs_terminal (bw_state w) \<or>
      bs_terminal (bw_state w) = None \<and> bs_terminal s \<noteq> None \<and> bs_terminal s \<noteq> Some Terminal_End"
    using assms(3) by (simp add: quiet_section_def r)
  then show ?thesis
    using assms(1) results unfolding order_ok_def quiet_section_same [OF assms(2,3)] same by (elim disjE) auto
qed

lemma only_wakes_no_bytes: "list_all (\<lambda>m. m = Wake) ms \<Longrightarrow> concat (map message_bytes ms) = []"
  by (induction ms) simp_all

lemma order_ok_receive_message:
  assumes "order_ok w" "bw_reader w = Reader_Got limit m"
  shows "order_ok (after_section (receive_message limit m (bw_state w)) w)"
proof (cases "bs_terminal (bw_state w)")
  case None
  show ?thesis
  proof (cases m)
    case (Chunk bytes)
    with None assms show ?thesis
      by (simp add: order_ok_def in_flight_def pending_def section_defs)
  next
    case Msg_End
    with None assms show ?thesis
      by (simp add: order_ok_def in_flight_def pending_def section_defs only_wakes_no_bytes)
  next
    case (Msg_Error e)
    with None assms show ?thesis
      by (simp add: order_ok_def in_flight_def pending_def section_defs)
  next
    case Wake
    with None assms show ?thesis
      by (simp add: order_ok_def in_flight_def pending_def section_defs)
  qed
next
  case (Some t)
  with assms show ?thesis
    by (cases t) (simp_all add: order_ok_def in_flight_def pending_def section_defs)
qed

lemma pump_event_cases:
  assumes "pump_event hard_limit chunk_size e draining n = (p, received)"
  obtains (loop) "p = Pump_Loop draining" "e \<noteq> Stream_End"
    | (drained) "draining" "p = Pump_Done"
    | (failed) error where "p = Pump_Last (Msg_Error error)" "e \<noteq> Stream_End"
    | (ended) "\<not> draining" "p = Pump_Last Msg_End" "e = Stream_End"
    | (frame) frame where "\<not> draining" "e = Frame frame" "p = Pump_Sending (chunk_frame chunk_size frame)"
  using assms by (cases e; cases draining) (auto simp: pump_event_def Let_def split: if_splits)

lemma order_ok_pump:
  assumes "order_ok w" "bw_pump w = Pump_Loop draining" "concat (pending (w\<lparr> bw_pump := p \<rparr>)) = bytes"
    and "p = Pump_Last Msg_End \<Longrightarrow> ended" and "ended \<Longrightarrow> p \<in> {Pump_Last Msg_End, Pump_Done}"
  shows "order_ok (w\<lparr> bw_pump := p, bw_received := received, bw_input := bw_input w @ bytes, bw_ended := ended \<rparr>)"
proof -
  let ?w = "w\<lparr> bw_pump := p, bw_received := received, bw_input := bw_input w @ bytes, bw_ended := ended \<rparr>"
  have same: "in_flight ?w = in_flight w" "concat (pending ?w) = bytes"
    "bw_output ?w = bw_output w" "bw_input ?w = bw_input w @ bytes" "bw_results ?w = bw_results w"
    "bw_state ?w = bw_state w" "bw_pump ?w = p" "bw_ended ?w = ended"
    using assms(3) by (simp_all add: in_flight_def pending_def)
  have old: "concat (pending w) = []" "\<not> bw_ended w" "Msg_End \<notin> set (in_flight w)"
    "bs_terminal (bw_state w) \<noteq> Some Terminal_End"
    using assms(1,2) by (auto simp: order_ok_def pending_def)
  show ?thesis
    using assms(1,4-) old unfolding order_ok_def same by simp
qed

lemma order_ok_event:
  assumes "order_ok w" "0 < chunk_size" and pump: "bw_pump w = Pump_Loop draining"
    and turn: "pump_event hard_limit chunk_size e draining (bw_received w) = (p, received)"
  shows "order_ok (w\<lparr> bw_pump := p, bw_received := received,
      bw_input := bw_input w @ (case (e, p) of (Frame frame, Pump_Sending _) \<Rightarrow> frame | _ \<Rightarrow> []),
      bw_ended := (e = Stream_End) \<rparr>)"
proof (rule order_ok_pump [OF assms(1) pump])
  show "concat (pending (w\<lparr> bw_pump := p \<rparr>)) = (case (e, p) of (Frame frame, Pump_Sending _) \<Rightarrow> frame | _ \<Rightarrow> [])"
    using turn by (cases rule: pump_event_cases)
      (use assms(2) in \<open>simp_all add: pending_def chunk_frame_concat split: frame_event.split\<close>)
  show "p = Pump_Last Msg_End \<Longrightarrow> e = Stream_End" "e = Stream_End \<Longrightarrow> p \<in> {Pump_Last Msg_End, Pump_Done}"
    using turn by (cases rule: pump_event_cases; simp)+
qed

lemma order_ok_send:
  assumes "order_ok w" "stopped_ok w" and "pump_sends (bw_pump w) = Some m"
  shows "order_ok (w\<lparr> bw_queue := bw_queue w @ [m], bw_reserved := False, bw_pump := pump_sent (bw_pump w) \<rparr>)"
proof -
  have flight: "in_flight (w\<lparr> bw_queue := bw_queue w @ [n], bw_reserved := False, bw_pump := p \<rparr>) =
      in_flight w @ [n]" for n p
    by (simp add: in_flight_def)
  consider piece pieces where "bw_pump w = Pump_Sending (piece # pieces)" "m = Chunk piece"
    | "bw_pump w = Pump_Last m" "\<forall>bytes. m \<noteq> Chunk bytes"
    using assms(2,3) by (auto simp: pump_sends_def stopped_ok_def split: pump_state.splits list.splits)
  then show ?thesis
  proof cases
    case 1
    with assms(1) show ?thesis
      by (auto simp: order_ok_def flight pending_def pump_sent_def end_last_snoc)
  next
    case 2
    have "message_bytes m = []"
      using 2(2) by (cases m) simp_all
    with 2 assms(1) show ?thesis
      by (auto simp: order_ok_def flight pending_def pump_sent_def end_last_snoc)
  qed
qed

text \<open>A section leaves the control alone, never takes a terminal back, and has set one when it stops.\<close>

definition stopping_section :: "body_state \<Rightarrow> progress \<times> body_state \<times> bool \<Rightarrow> bool" where
  "stopping_section s r =
     (case r of (_, s', stopped) \<Rightarrow>
        bs_control s' = bs_control s \<and> (bs_terminal s' = None \<longrightarrow> bs_terminal s = None \<and> \<not> stopped))"

lemma stopping_receive_enter: "stopping_section s (receive_enter requested_limit s)"
  by (simp add: stopping_section_def receive_enter_def effective_limit_def set_terminal_def check_terminal_def Let_def
    split: option.split)

lemma stopping_read_all_enter: "stopping_section s (read_all_enter requested_limit s)"
proof -
  obtain limit s' where e: "effective_limit requested_limit s = (limit, s')"
    by (cases "effective_limit requested_limit s")
  have t: "bs_terminal s' = bs_terminal s" "bs_control s' = bs_control s"
    using e by (auto simp: effective_limit_def Let_def)
  have same: "stopping_section s r = stopping_section s' r" for r
    unfolding stopping_section_def t by (rule refl)
  show ?thesis
  proof (cases "bs_delivered s' > limit")
    case True
    then show ?thesis
      by (simp add: read_all_enter_def e Let_def stopping_section_def set_terminal_def t)
  next
    case False
    then show ?thesis
      using stopping_receive_enter [of s' requested_limit] by (simp add: read_all_enter_def e same)
  qed
qed

lemma stopping_receive_message: "stopping_section s (receive_message limit m s)"
  by (simp add: stopping_section_def receive_message_def check_terminal_def set_terminal_def Let_def
    split: option.split pump_message.split)

lemma stopped_ok_section:
  assumes "stopped_ok w" "stopping_section (bw_state w) r"
  shows "stopped_ok (after_section r w)"
proof -
  obtain p s b where r: "r = (p, s, b)"
    by (cases r)
  have same: "bw_pump (after_section r w) = bw_pump w" "bw_seen (after_section r w) = bw_seen w"
    "bw_state (after_section r w) = s" "bw_stopping (after_section r w) = bw_stopping w + of_bool b"
    by (simp_all add: after_section_def r)
  have "bs_control s = bs_control (bw_state w)"
    "bs_terminal s = None \<Longrightarrow> bs_terminal (bw_state w) = None \<and> \<not> b"
    using assms(2) by (simp_all add: stopping_section_def r)
  then show ?thesis
    using assms(1) unfolding stopped_ok_def same by (cases "bs_terminal s") auto
qed

lemma pump_control_turn_not_last: "pump_control_turn c p \<noteq> Pump_Last m"
  by (auto simp: pump_control_turn_def split: pump_state.split list.split pump_control.split)

lemma pump_control_turn_running: "pump_control_turn Running p = Pump_Loop True \<Longrightarrow> p = Pump_Loop True"
  by (auto simp: pump_control_turn_def split: pump_state.splits list.splits)

lemma stopped_ok_step:
  assumes "body_step accepts chunk_size w w'" "stopped_ok w"
  shows "stopped_ok w'"
  using assms(1)
proof (cases rule: body_step.cases)
  case (step_read requested_limit)
  with assms(2) show ?thesis by (simp add: stopped_ok_section stopping_receive_enter)
next
  case (step_read_all requested_limit)
  with assms(2) show ?thesis by (simp add: stopped_ok_section stopping_read_all_enter)
next
  case (step_message limit m)
  with assms(2) show ?thesis by (simp add: stopped_ok_section stopping_receive_message)
next
  case (step_stop error)
  with assms(2) show ?thesis by (simp add: stopped_ok_def set_terminal_def)
next
  case step_stop_wake
  with assms(2) show ?thesis by (simp add: stopped_ok_def stop_wake_def)
next
  case (step_event draining e p received)
  from step_event(4) show ?thesis
    by (cases rule: pump_event_cases) (use assms(2) step_event(1,2) in \<open>simp_all add: stopped_ok_def\<close>)
next
  case step_control
  with assms(2) show ?thesis
    by (auto simp: stopped_ok_def pump_control_turn_not_last dest: pump_control_turn_running)
next
  case (step_send m)
  with assms(2) show ?thesis
    by (simp add: stopped_ok_def pump_sent_def split: pump_state.split list.split)
qed (use assms(2) in \<open>simp_all add: stopped_ok_def\<close>)

lemma sizes_ok_quiet:
  "sizes_ok chunk_size w \<Longrightarrow> bw_reader w = Reader_Idle \<Longrightarrow> quiet_section (bw_state w) r \<Longrightarrow>
    sizes_ok chunk_size (after_section r w)"
  unfolding sizes_ok_def by (simp only: quiet_section_same)

lemma sizes_ok_receive_message:
  assumes "sizes_ok chunk_size w" "bw_reader w = Reader_Got limit m"
  shows "sizes_ok chunk_size (after_section (receive_message limit m (bw_state w)) w)"
proof -
  let ?v = "after_section (receive_message limit m (bw_state w)) w"
  have "set (bw_output ?v) \<subseteq> set (bw_output w) \<union> {bytes. m = Chunk bytes}"
    by (cases "bs_terminal (bw_state w)"; cases m)
       (auto simp: after_section_def receive_message_def check_terminal_def Let_def split: terminal.split)
  moreover have "set (in_flight ?v) \<subseteq> set (in_flight w)" "pending ?v = pending w"
    by (auto simp: in_flight_def pending_def after_section_def split: prod.split progress.split)
  moreover have "m \<in> set (in_flight w)"
    using assms(2) by (simp add: in_flight_def)
  ultimately show ?thesis
    using assms(1) unfolding sizes_ok_def by fastforce
qed

lemma sizes_ok_step:
  assumes "body_step accepts chunk_size w w'" "stopped_ok w" "sizes_ok chunk_size w"
  shows "sizes_ok chunk_size w'"
  using assms(1)
proof (cases rule: body_step.cases)
  case (step_read requested_limit)
  with assms(3) show ?thesis by (simp add: sizes_ok_quiet quiet_receive_enter)
next
  case (step_read_all requested_limit)
  with assms(3) show ?thesis by (simp add: sizes_ok_quiet quiet_read_all_enter)
next
  case (step_recv limit m queue)
  with assms(3) show ?thesis by (simp add: sizes_ok_def in_flight_def pending_def)
next
  case (step_message limit m)
  with assms(3) show ?thesis by (simp add: sizes_ok_receive_message)
next
  case step_stop_wake
  with assms(3) show ?thesis by (simp add: sizes_ok_def in_flight_def pending_def stop_wake_def)
next
  case (step_event draining e p received)
  from step_event(4) show ?thesis
    by (cases rule: pump_event_cases)
       (use assms(3) step_event(1,2) in
          \<open>auto simp: sizes_ok_def in_flight_def pending_def dest: chunk_frame_sizes\<close>)
next
  case step_control
  with assms(3) show ?thesis
    by (auto simp: sizes_ok_def in_flight_def pending_def pump_control_turn_def
      split: pump_state.splits list.splits pump_control.splits)
next
  case (step_send m)
  with assms(2,3) show ?thesis
    by (auto simp: sizes_ok_def stopped_ok_def in_flight_def pending_def pump_sends_def pump_sent_def
      split: pump_state.splits list.splits)
qed (use assms(3) in \<open>simp_all add: sizes_ok_def in_flight_def pending_def\<close>)

lemma order_ok_step:
  assumes "body_step accepts chunk_size w w'" "0 < chunk_size" "stopped_ok w" "order_ok w"
  shows "order_ok w'"
  using assms(1)
proof (cases rule: body_step.cases)
  case (step_read requested_limit)
  with assms(4) show ?thesis by (simp add: order_ok_quiet quiet_receive_enter)
next
  case (step_read_all requested_limit)
  with assms(4) show ?thesis by (simp add: order_ok_quiet quiet_read_all_enter)
next
  case step_busy
  with assms(3,4) show ?thesis by (auto simp: order_ok_def in_flight_def pending_def)
next
  case (step_recv limit m queue)
  with assms(3,4) show ?thesis by (auto simp: order_ok_def in_flight_def pending_def)
next
  case (step_message limit m)
  with assms(4) show ?thesis by (simp add: order_ok_receive_message)
next
  case (step_stop error)
  with assms(4) show ?thesis
    by (cases "bs_terminal (bw_state w)")
       (simp_all add: order_ok_def in_flight_def pending_def set_terminal_def)
next
  case step_stop_control
  with assms(3,4) show ?thesis by (auto simp: order_ok_def in_flight_def pending_def)
next
  case step_stop_wake
  with assms(3,4) show ?thesis
    by (auto simp: order_ok_def in_flight_def pending_def stop_wake_def simp flip: append_assoc)
next
  case (step_event draining e p received)
  with assms(2-4) show ?thesis by (simp only: order_ok_event)
next
  case step_control
  with assms(3,4) show ?thesis
    by (auto simp: order_ok_def stopped_ok_def in_flight_def pending_def pump_control_turn_def
      split: pump_splits)
next
  case step_permit
  with assms(3,4) show ?thesis by (auto simp: order_ok_def in_flight_def pending_def)
next
  case (step_send m)
  with assms(3,4) show ?thesis by (simp only: order_ok_send)
next
  case step_sent
  with assms(3,4) show ?thesis by (auto simp: order_ok_def in_flight_def pending_def)
qed

section \<open>What the application sees\<close>

lemma body_reachable_ok:
  assumes "(body_step accepts chunk_size)\<^sup>*\<^sup>* (register_body hard_limit) w"
    and "0 < chunk_size" and "hard_limit < u64_max" and "mpsc_laws capacity accepts"
  shows "limits_ok hard_limit w \<and> stopped_ok w \<and> order_ok w \<and> sizes_ok chunk_size w \<and>
    (2 \<le> capacity \<longrightarrow> wake_ok w)"
  using assms(1)
proof (induction rule: rtranclp_induct)
  case base
  show ?case
    by (simp add: register_body_def limits_ok_def stopped_ok_def order_ok_def sizes_ok_def wake_ok_def
      in_flight_def pending_def reader_limit_def)
next
  case (step v w)
  then show ?case
    using assms(2,3) limits_ok_step stopped_ok_step order_ok_step sizes_ok_step wake_ok_step [OF assms(4)] by metis
qed

lemma run_step:
  "body_step accepts chunk_size w v \<Longrightarrow> v = v' \<Longrightarrow> (body_step accepts chunk_size)\<^sup>*\<^sup>* v' u \<Longrightarrow>
    (body_step accepts chunk_size)\<^sup>*\<^sup>* w u"
  by (simp add: converse_rtranclp_into_rtranclp)

lemma chunk_frame_examples: "chunk_frame (Suc 0) ''ab'' = [''a'', ''b'']" "chunk_frame 2 ''abc'' = [''ab'', ''c'']"
  by (simp_all add: chunk_frame.simps)

lemmas run_simps =
  section_defs pump_defs stop_wake_def bounded_accepts_def stop_control_def chunk_frame_examples
  saturating_add_def u64_max_def

text \<open>With the capacity for one message and a channel that grants a free permit to the waiting pump, the wake message of \<open>stop\<close> can be lost: the reader takes the only
  message, the channel hands the free permit to the waiting pump, the reader waits again, \<open>stop\<close> finds
  no permit, and the pump drops its message when it sees the control.  Nothing is left to wake the
  reader.\<close>

lemma wake_lost_at_capacity_one:
  "\<exists>w. (body_step (bounded_accepts 1) 1)\<^sup>*\<^sup>* (register_body 10) w \<and> \<not> wake_ok w \<and> bw_pump w = Pump_Done"
  apply (rule exI)
  apply (rule conjI)
   apply (subst register_body_def)
   apply (rule run_step, rule step_event [where draining = False and e = "Frame ''ab''" and p = "Pump_Sending [''a'', ''b'']" and received = 2],
       simp add: run_simps, simp add: run_simps, simp add: run_simps, simp add: run_simps)
   apply (rule run_step, rule step_permit,
       simp add: run_simps, simp add: run_simps, simp add: run_simps, simp add: run_simps)
   apply (rule run_step, rule step_send [where m = "Chunk ''a''"],
       simp add: run_simps, simp add: run_simps, simp add: run_simps, simp add: run_simps)
   apply (rule run_step, rule step_read [where requested_limit = 10],
       simp add: run_simps, simp add: run_simps)
   apply (rule run_step, rule step_recv [where limit = 10 and m = "Chunk ''a''" and queue = "[]"],
       simp add: run_simps, simp add: run_simps, simp add: run_simps)
   apply (rule run_step, rule step_permit,
       simp add: run_simps, simp add: run_simps, simp add: run_simps, simp add: run_simps)
   apply (rule run_step, rule step_message [where limit = 10 and m = "Chunk ''a''"],
       simp add: run_simps, simp add: run_simps)
   apply (rule run_step, rule step_read [where requested_limit = 10],
       simp add: run_simps, simp add: run_simps)
   apply (rule run_step, rule step_stop [where error = Cancelled],
       simp add: run_simps)
   apply (rule run_step, rule step_stop_control,
       simp add: run_simps, simp add: run_simps)
   apply (rule run_step, rule step_stop_wake,
       simp add: run_simps, simp add: run_simps)
   apply (rule run_step, rule step_control,
       simp add: run_simps, simp add: run_simps, simp add: run_simps)
   apply (rule rtranclp.rtrancl_refl)
  apply (simp add: wake_ok_def run_simps)
  done



end
