(* ===== verification/Roc_Str.thy ===== *)
theory Roc_Str
  imports Prelude
begin

text \<open>
  Strings of the Roc platform, which are their UTF-8 bytes: the operations of \<open>Str\<close> that its
  modules use beyond those of the Rust library, and the lemmas on splitting and joining.
\<close>

abbreviation CR :: char where "CR \<equiv> CHR 0x0D"
abbreviation LF :: char where "LF \<equiv> CHR 0x0A"

text \<open>\<open>Str.split_on\<close> at a separator that is not empty.\<close>

function split_on_str :: "string \<Rightarrow> string \<Rightarrow> string list" where
  "split_on_str d s =
     (if d = [] then [s]
      else (case split_once_str d s of None \<Rightarrow> [s] | Some (a, b) \<Rightarrow> a # split_on_str d b))"
  by pat_completeness auto
termination
  by (relation "measure (\<lambda>(d, s). length s)") (auto dest!: split_once_str_Some)

declare split_on_str.simps [simp del]

section \<open>Lemmas\<close>

lemma concat_split_on: "concat (split_on c s) = filter (\<lambda>x. x \<noteq> c) s"
proof (induction s)
  case (Cons x s)
  then show ?case by (cases "split_on c s") auto
qed simp

lemma join_split_replace: "join_with d (split_on c s) = map (\<lambda>x. if x = c then d else x) s"
proof (induction s)
  case (Cons x s)
  then show ?case by (cases "split_on c s"; cases "tl (split_on c s)") auto
qed simp

lemma split_on_str_not_Nil: "split_on_str d s \<noteq> []"
  by (subst split_on_str.simps) (simp split: option.splits prod.splits)

lemma join_Cons_Nil: "ws \<noteq> [] \<Longrightarrow> join_with c ([] # ws) = c # join_with c ws"
  by (cases ws) auto

lemma join_Cons_Cons: "join_with c ((x # w) # ws) = x # join_with c (w # ws)"
  by (cases ws) auto

lemma join_append: "xs \<noteq> [] \<Longrightarrow> ys \<noteq> [] \<Longrightarrow> join_with c (xs @ ys) = join_with c xs @ c # join_with c ys"
proof (induction c xs rule: join_with.induct)
  case (2 c w)
  then show ?case by (cases ys) auto
qed auto

lemma join_nested: "(\<And>ws. ws \<in> set wss \<Longrightarrow> ws \<noteq> []) \<Longrightarrow> join_with c (map (join_with c) wss) = join_with c (concat wss)"
proof (induction wss)
  case (Cons ws wss)
  show ?case
  proof (cases "wss = []")
    case False
    then have "concat wss \<noteq> []" using Cons.prems by (cases wss) auto
    with False Cons show ?thesis by (cases wss) (simp_all add: join_append)
  qed simp
qed simp

lemma join_tail: "xs \<noteq> [] \<Longrightarrow> join_with c ys = join_with c zs \<Longrightarrow> (ys = [] \<longleftrightarrow> zs = []) \<Longrightarrow>
    join_with c (xs @ ys) = join_with c (xs @ zs)"
  by (cases "ys = []") (simp_all add: join_append)

lemma concat_single: "(\<And>l. l \<in> set ls \<Longrightarrow> g (f l) = [f l]) \<Longrightarrow> concat (map g (map f ls)) = map f ls"
  by (induction ls) auto

lemma find_index_first: "x \<notin> set v \<Longrightarrow> find_index (\<lambda>b. b = x) (v @ x # r) = Some (length v)"
  by (induction v) auto

lemma rsplit_once_char: "c \<notin> set b \<Longrightarrow> rsplit_once c (a @ c # b) = Some (a, b)"
  using find_index_first [of c "rev b" "rev a"]
  by (simp add: rsplit_once_def rfind_char_def find_char_def)

end
