(* ===== verification/Sse.thy ===== *)
theory Sse
  imports Roc_Str
begin

text \<open>
  \<open>src/platform/Sse.roc\<close>: the framing of server-sent events, against the event-stream
  interpretation of a client (HTML standard, section 9.2.6).  A Roc string is its UTF-8 bytes.
\<close>

section \<open>Events\<close>

datatype event_id_field = AbsentEventId | ClearEventId | SetEventId string

datatype retry_field = NoRetry | RetryAfter nat

record event_options =
  eo_id :: event_id_field
  eo_retry :: retry_field

definition default_event_options :: event_options where
  "default_event_options = \<lparr> eo_id = AbsentEventId, eo_retry = NoRetry \<rparr>"

datatype event_id_error = InvalidEventId

definition event_id :: "string \<Rightarrow> event_id_error + event_id_field" where
  "event_id value =
     (if CR \<in> set value \<or> LF \<in> set value \<or> list_ex (\<lambda>byte. code byte = 0) value
      then Inl InvalidEventId else Inr (SetEventId value))"

datatype event = Event string

fun to_bytes :: "event \<Rightarrow> string" where
  "to_bytes (Event bytes) = bytes"

text \<open>The name without line endings, and a value with its line endings normalised.\<close>

definition safe_name :: "string \<Rightarrow> string" where
  "safe_name name = concat (split_on LF (concat (split_on CR name)))"

definition normalized :: "string \<Rightarrow> string" where
  "normalized value =
     (let lf = join_with LF (split_on_str [CR, LF] value) in join_with LF (split_on CR lf))"

definition id_fields :: "event_id_field \<Rightarrow> string list" where
  "id_fields i = (case i of AbsentEventId \<Rightarrow> [] | ClearEventId \<Rightarrow> [''id:''] | SetEventId value \<Rightarrow> [''id: '' @ value])"

definition retry_fields :: "retry_field \<Rightarrow> string list" where
  "retry_fields r = (case r of NoRetry \<Rightarrow> [] | RetryAfter milliseconds \<Rightarrow> [''retry: '' @ to_decimal milliseconds])"

definition data_field :: "string \<Rightarrow> string" where
  "data_field value = join_with LF (map (\<lambda>line. ''data: '' @ line) (split_on LF (normalized value)))"

definition named_with :: "string \<Rightarrow> string list \<Rightarrow> event_options \<Rightarrow> event" where
  "named_with name values options =
     Event (join_with LF ([''event: '' @ safe_name name] @ id_fields (eo_id options) @
        retry_fields (eo_retry options) @ map data_field values) @ [LF, LF])"

definition named :: "string \<Rightarrow> string list \<Rightarrow> event" where
  "named name values = named_with name values default_event_options"

definition keyed :: "string \<Rightarrow> string \<Rightarrow> string \<Rightarrow> event" where
  "keyed name key value =
     (let safe = (if CR \<in> set name \<or> LF \<in> set name then safe_name name else name) in
      if CR \<in> set value \<or> LF \<in> set value
      then named safe (map (\<lambda>line. key @ '' '' @ line) (split_on LF (normalized value)))
      else Event (''event: '' @ safe @ [LF] @ ''data: '' @ key @ '' '' @ value @ [LF, LF]))"

definition data_event :: "string \<Rightarrow> event" where
  "data_event value =
     (if CR \<notin> set value \<and> LF \<notin> set value then Event (''data: '' @ value @ [LF, LF])
      else Event (join_with LF (map (\<lambda>line. ''data: '' @ line) (split_on LF (normalized value))) @ [LF, LF]))"

section \<open>Sources\<close>

datatype wake = Immediately | After nat

fun wake_to_host :: "wake \<Rightarrow> nat" where
  "wake_to_host Immediately = 0"
| "wake_to_host (After milliseconds) = milliseconds"

datatype 's sse_step = Emit event 's wake | Wait 's wake | End

text \<open>A retained source is the application state it closes over.\<close>

datatype 's step_to_host = EmitToHost string 's nat | WaitToHost 's nat | EndToHost | ErrorToHost string

definition advance_source :: "('e \<Rightarrow> string) \<Rightarrow> ('s \<Rightarrow> 'e + 's sse_step) \<Rightarrow> 's \<Rightarrow> 's step_to_host" where
  "advance_source inspect transition state =
     (case transition state of
        Inr (Emit event next_state wake) \<Rightarrow> EmitToHost (to_bytes event) next_state (wake_to_host wake)
      | Inr (Wait next_state wake) \<Rightarrow> WaitToHost next_state (wake_to_host wake)
      | Inr End \<Rightarrow> EndToHost
      | Inl err \<Rightarrow> ErrorToHost (inspect err))"

section \<open>The client\<close>

text \<open>Complete lines of a stream; they end with CR LF, CR or LF, and an incomplete one is lost.\<close>

fun stream_lines :: "string \<Rightarrow> string \<Rightarrow> string list" where
  "stream_lines acc [] = []"
| "stream_lines acc (c # r) =
     (if c = CR then rev acc # stream_lines [] (if r \<noteq> [] \<and> hd r = LF then tl r else r)
      else if c = LF then rev acc # stream_lines [] r
      else stream_lines (c # acc) r)"

record sse_message =
  sm_type :: string
  sm_data :: string
  sm_id :: string

record sse_client =
  cl_data :: string
  cl_type :: string
  cl_id :: string
  cl_retry :: "nat option"
  cl_messages :: "sse_message list"

definition client_new :: sse_client where
  "client_new = \<lparr> cl_data = [], cl_type = [], cl_id = [], cl_retry = None, cl_messages = [] \<rparr>"

definition client_field :: "string \<Rightarrow> string \<Rightarrow> sse_client \<Rightarrow> sse_client" where
  "client_field name value st =
     (if name = ''event'' then st\<lparr> cl_type := value \<rparr>
      else if name = ''data'' then st\<lparr> cl_data := cl_data st @ value @ [LF] \<rparr>
      else if name = ''id'' then (if CHR 0x00 \<in> set value then st else st\<lparr> cl_id := value \<rparr>)
      else if name = ''retry''
      then (if value \<noteq> [] \<and> list_all is_ascii_digit value then st\<lparr> cl_retry := Some (decimal_value value) \<rparr> else st)
      else st)"

definition client_dispatch :: "sse_client \<Rightarrow> sse_client" where
  "client_dispatch st =
     (if cl_data st = [] then st\<lparr> cl_type := [] \<rparr>
      else st\<lparr> cl_data := [], cl_type := [],
             cl_messages := cl_messages st @
               [\<lparr> sm_type = (if cl_type st = [] then ''message'' else cl_type st),
                  sm_data = butlast (cl_data st), sm_id = cl_id st \<rparr>] \<rparr>)"

definition strip_space :: "string \<Rightarrow> string" where
  "strip_space s = (if starts_with s '' '' then tl s else s)"

definition client_line :: "sse_client \<Rightarrow> string \<Rightarrow> sse_client" where
  "client_line st line =
     (if line = [] then client_dispatch st
      else if starts_with line '':'' then st
      else (case split_once CHR '':'' line of
              None \<Rightarrow> client_field line [] st
            | Some (name, value) \<Rightarrow> client_field name (strip_space value) st))"

definition client_read :: "string \<Rightarrow> sse_client \<Rightarrow> sse_client" where
  "client_read s st = foldl client_line st (stream_lines [] s)"

section \<open>What the constructors mean\<close>

text \<open>The logical lines of a text.\<close>

fun text_lines :: "string \<Rightarrow> string list" where
  "text_lines [] = [[]]"
| "text_lines (c # r) =
     (if c = CR then [] # text_lines (if r \<noteq> [] \<and> hd r = LF then tl r else r)
      else if c = LF then [] # text_lines r
      else (c # hd (text_lines r)) # tl (text_lines r))"

datatype sse_call = Data string | Named string "string list" event_options | Keyed string string string

fun call_event :: "sse_call \<Rightarrow> event" where
  "call_event (Data value) = data_event value"
| "call_event (Named name values options) = named_with name values options"
| "call_event (Keyed name key value) = keyed name key value"

definition no_eol :: "string \<Rightarrow> bool" where
  "no_eol s = (CR \<notin> set s \<and> LF \<notin> set s)"

fun call_ok :: "sse_call \<Rightarrow> bool" where
  "call_ok (Data value) = True"
| "call_ok (Named name values options) =
     (case eo_id options of SetEventId i \<Rightarrow> event_id i = Inr (SetEventId i) | _ \<Rightarrow> True)"
| "call_ok (Keyed name key value) = no_eol key"

fun call_name :: "sse_call \<Rightarrow> string" where
  "call_name (Data value) = []"
| "call_name (Named name values options) = filter (\<lambda>c. c \<noteq> CR \<and> c \<noteq> LF) name"
| "call_name (Keyed name key value) = filter (\<lambda>c. c \<noteq> CR \<and> c \<noteq> LF) name"

fun call_lines :: "sse_call \<Rightarrow> string list" where
  "call_lines (Data value) = text_lines value"
| "call_lines (Named name values options) = concat (map text_lines values)"
| "call_lines (Keyed name key value) = map (\<lambda>line. key @ '' '' @ line) (text_lines value)"

fun call_options :: "sse_call \<Rightarrow> event_options" where
  "call_options (Named name values options) = options"
| "call_options _ = default_event_options"

text \<open>What a client holds after one event: the new reconnection data, and one message unless the
  event has no data.\<close>

definition deliver :: "sse_client \<Rightarrow> sse_call \<Rightarrow> sse_client" where
  "deliver st call =
     (let i = (case eo_id (call_options call) of
                 AbsentEventId \<Rightarrow> cl_id st | ClearEventId \<Rightarrow> [] | SetEventId v \<Rightarrow> v);
          retry = (case eo_retry (call_options call) of NoRetry \<Rightarrow> cl_retry st | RetryAfter n \<Rightarrow> Some n) in
      st\<lparr> cl_id := i, cl_retry := retry,
         cl_messages := cl_messages st @
           (if call_lines call = [] then []
            else [\<lparr> sm_type = (if call_name call = [] then ''message'' else call_name call),
                    sm_data = join_with LF (call_lines call), sm_id = i \<rparr>]) \<rparr>)"

text \<open>The lines of the frame of an event, and a value with single line feeds.\<close>

fun frame_lines :: "sse_call \<Rightarrow> string list" where
  "frame_lines (Data value) = map (\<lambda>l. ''data: '' @ l) (text_lines value)"
| "frame_lines (Named name values options) =
     (''event: '' @ safe_name name) # id_fields (eo_id options) @ retry_fields (eo_retry options) @
       map (\<lambda>l. ''data: '' @ l) (concat (map text_lines values))"
| "frame_lines (Keyed name key value) =
     (''event: '' @ safe_name name) # map (\<lambda>l. ''data: '' @ key @ '' '' @ l) (text_lines value)"

definition lf_only :: "string \<Rightarrow> string" where
  "lf_only s = join_with LF (split_on_str [CR, LF] s)"

section \<open>Lemmas\<close>

lemma safe_name_filter: "safe_name name = filter (\<lambda>c. c \<noteq> CR \<and> c \<noteq> LF) name"
  by (simp add: safe_name_def concat_split_on conj_commute)

lemma lf_only_Nil: "lf_only [] = []"
  by (simp add: lf_only_def split_on_str.simps)

lemma lf_only_crlf: "lf_only (CR # LF # r) = LF # lf_only r"
  by (simp add: lf_only_def split_on_str.simps [of _ "CR # LF # r"] starts_with_def join_Cons_Nil split_on_str_not_Nil)

lemma lf_only_other:
  assumes "\<not> (c = CR \<and> r \<noteq> [] \<and> hd r = LF)"
  shows "lf_only (c # r) = c # lf_only r"
proof -
  have n: "\<not> starts_with (c # r) [CR, LF]" using assms by (cases r) (auto simp: starts_with_def)
  show ?thesis
  proof (cases "split_once_str [CR, LF] r")
    case None
    with n show ?thesis by (simp add: lf_only_def split_on_str.simps [of _ "c # r"] split_on_str.simps [of _ r])
  next
    case (Some ab)
    with n show ?thesis
      by (cases ab) (simp add: lf_only_def split_on_str.simps [of _ "c # r"] split_on_str.simps [of _ r] join_Cons_Cons)
  qed
qed

lemma split_normalized: "split_on LF (normalized v) = text_lines v"
proof (induction v rule: text_lines.induct)
  case 1
  show ?case by (simp add: normalized_def lf_only_def [symmetric] lf_only_Nil)
next
  case (2 c r)
  note eq = normalized_def lf_only_def [symmetric] join_split_replace
  show ?case
  proof (cases "c = CR \<and> r \<noteq> [] \<and> hd r = LF")
    case True
    then obtain r' where r: "r = LF # r'" by (cases r) auto
    from True 2(1) show ?thesis by (simp add: r eq lf_only_crlf)
  next
    case False
    with 2 show ?thesis
      by (cases "text_lines r") (auto simp: eq lf_only_other)
  qed
qed

lemma text_lines_not_Nil: "text_lines s \<noteq> []"
  by (cases s) auto

lemma text_lines_no_eol: "l \<in> set (text_lines s) \<Longrightarrow> no_eol l"
proof (induction s arbitrary: l rule: text_lines.induct)
  case (2 c r)
  then show ?case
    using text_lines_not_Nil [of r] by (cases "text_lines r") (auto simp: no_eol_def split: if_splits)
qed (simp add: no_eol_def)

lemma text_lines_single: "no_eol s \<Longrightarrow> text_lines s = [s]"
  by (induction s) (auto simp: no_eol_def)

lemma stream_lines_line:
  "no_eol l \<Longrightarrow> stream_lines acc (l @ LF # r) = (rev acc @ l) # stream_lines [] r"
  by (induction l arbitrary: acc) (auto simp: no_eol_def)

lemma stream_lines_join:
  assumes "ls \<noteq> []" "\<And>l. l \<in> set ls \<Longrightarrow> no_eol l"
  shows "stream_lines [] (join_with LF ls @ LF # LF # r) = ls @ [] # stream_lines [] r"
  using assms by (induction LF ls rule: join_with.induct) (simp_all add: stream_lines_line)

lemma client_read_frame:
  assumes "ls \<noteq> []" "\<And>l. l \<in> set ls \<Longrightarrow> no_eol l"
  shows "client_read (join_with LF ls @ LF # LF # r) st =
    client_read r (client_dispatch (foldl client_line st ls))"
  by (simp add: client_read_def stream_lines_join [OF assms] client_line_def [of _ "[]"])

lemma client_line_field:
  assumes "CHR '':'' \<notin> set name" "name \<noteq> []"
  shows "client_line st (name @ '': '' @ value) = client_field name value st"
proof -
  have "split_once CHR '':'' (name @ '': '' @ value) = Some (name, '' '' @ value)"
    using assms by (simp add: split_once_Some)
  moreover have "\<not> starts_with (name @ '': '' @ value) '':''" using assms by (cases name) (auto simp: starts_with_def)
  ultimately show ?thesis using assms by (simp add: client_line_def strip_space_def starts_with_def)
qed

lemma client_line_fields:
  "client_line st (''event: '' @ v) = st\<lparr> cl_type := v \<rparr>"
  "client_line st (''data: '' @ v) = st\<lparr> cl_data := cl_data st @ v @ [LF] \<rparr>"
  "client_line st (''id: '' @ v) = (if CHR 0x00 \<in> set v then st else st\<lparr> cl_id := v \<rparr>)"
  "client_line st (''retry: '' @ to_decimal n) = st\<lparr> cl_retry := Some n \<rparr>"
  "client_line st ''id:'' = st\<lparr> cl_id := [] \<rparr>"
  using client_line_field [of "''event''" st v] client_line_field [of "''data''" st v]
    client_line_field [of "''id''" st v] client_line_field [of "''retry''" st "to_decimal n"]
  by (simp_all add: client_field_def to_decimal_not_Nil to_decimal_digits decimal_value_to_decimal)
    (simp add: client_line_def split_once_def starts_with_def strip_space_def client_field_def)

lemma client_data_lines:
  "foldl client_line st (map (\<lambda>l. ''data: '' @ l) ls) =
     st\<lparr> cl_data := cl_data st @ concat (map (\<lambda>l. l @ [LF]) ls) \<rparr>"
  by (induction ls arbitrary: st) (simp_all add: client_line_fields(2) [simplified])

lemma concat_lines: "ls \<noteq> [] \<Longrightarrow> concat (map (\<lambda>l. l @ [c]) ls) = join_with c ls @ [c]"
  by (induction c ls rule: join_with.induct) auto

lemma named_with_frame: "to_bytes (named_with name values options) = join_with LF (frame_lines (Named name values options)) @ [LF, LF]"
proof -
  let ?d = "map (\<lambda>l. ''data: '' @ l)"
  have v: "map data_field values = map (join_with LF) (map (?d \<circ> text_lines) values)"
    by (simp add: data_field_def split_normalized)
  have e: "?d (concat (map text_lines values)) = concat (map (?d \<circ> text_lines) values)"
    by (simp add: map_concat)
  have "join_with LF (map data_field values) = join_with LF (?d (concat (map text_lines values)))"
    unfolding v e by (rule join_nested) (auto simp: text_lines_not_Nil)
  moreover have "map data_field values = [] \<longleftrightarrow> ?d (concat (map text_lines values)) = []"
    using text_lines_not_Nil by (cases "values") auto
  ultimately have "join_with LF ((''event: '' @ safe_name name) # id_fields (eo_id options) @ retry_fields (eo_retry options) @ map data_field values) =
      join_with LF ((''event: '' @ safe_name name) # id_fields (eo_id options) @ retry_fields (eo_retry options) @ ?d (concat (map text_lines values)))"
    using join_tail [of "(''event: '' @ safe_name name) # id_fields (eo_id options) @ retry_fields (eo_retry options)" LF
        "map data_field values" "?d (concat (map text_lines values))"] by simp
  then show ?thesis
    by (simp only: named_with_def to_bytes.simps frame_lines.simps append_Cons [of "''event: '' @ safe_name name"] append_Nil)
qed

lemma safe_name_idem: "safe_name (safe_name n) = safe_name n"
  by (simp add: safe_name_filter)

lemma safe_name_id: "CR \<notin> set n \<Longrightarrow> LF \<notin> set n \<Longrightarrow> safe_name n = n"
  by (induction n) (auto simp: safe_name_filter)

lemma keyed_frame:
  assumes "no_eol key"
  shows "to_bytes (keyed name key value) = join_with LF (frame_lines (Keyed name key value)) @ [LF, LF]"
proof (cases "no_eol value")
  case True
  then show ?thesis
    by (simp add: keyed_def Let_def no_eol_def text_lines_single safe_name_id)
next
  case False
  have k: "text_lines (key @ '' '' @ l) = [key @ '' '' @ l]" if "l \<in> set (text_lines value)" for l
    using text_lines_no_eol [OF that] assms by (intro text_lines_single) (simp add: no_eol_def)
  have "concat (map text_lines (map (\<lambda>l. key @ '' '' @ l) (text_lines value))) = map (\<lambda>l. key @ '' '' @ l) (text_lines value)"
    by (rule concat_single) (rule k)
  moreover have "(if CR \<in> set name \<or> LF \<in> set name then safe_name name else name) = safe_name name"
    by (simp add: safe_name_id)
  ultimately show ?thesis using False
    by (simp add: keyed_def Let_def no_eol_def named_def named_with_frame split_normalized safe_name_idem
        id_fields_def retry_fields_def default_event_options_def comp_def)
qed

lemma call_event_frame: "call_ok call \<Longrightarrow> to_bytes (call_event call) = join_with LF (frame_lines call) @ [LF, LF]"
proof (cases call)
  case (Data v)
  show ?thesis
  proof (cases "no_eol v")
    case True
    with Data show ?thesis by (simp add: data_event_def text_lines_single) (simp add: no_eol_def)
  next
    case False
    then have "\<not> (CR \<notin> set v \<and> LF \<notin> set v)" by (simp add: no_eol_def)
    then show ?thesis
      by (simp only: Data call_event.simps data_event_def if_False to_bytes.simps frame_lines.simps split_normalized)
  qed
qed (simp_all add: named_with_frame keyed_frame del: frame_lines.simps)

lemma to_decimal_no_eol: "no_eol (to_decimal n)"
  using to_decimal_digits [of n] by (force simp: no_eol_def list_all_iff ascii_defs code_def)

lemma safe_name_no_eol: "no_eol (safe_name n)"
  by (simp add: safe_name_filter no_eol_def)

lemma no_eol_append: "no_eol (a @ b) \<longleftrightarrow> no_eol a \<and> no_eol b"
  by (auto simp: no_eol_def)

lemma frame_lines_no_eol:
  assumes "call_ok call" "l \<in> set (frame_lines call)"
  shows "no_eol l"
proof -
  have p: "no_eol ''data: ''" "no_eol ''event: ''" "no_eol ''id: ''" "no_eol ''id:''" "no_eol ''retry: ''" "no_eol '' ''"
    by (simp_all add: no_eol_def)
  note [simp del] = append_Cons
  show ?thesis
  proof (cases call)
    case (Named name vs options)
    with assms p show ?thesis
      by (auto simp: no_eol_append safe_name_no_eol to_decimal_no_eol text_lines_no_eol id_fields_def retry_fields_def event_id_def
          split: event_id_field.splits retry_field.splits if_splits) (auto simp: no_eol_def)
  qed (use assms p text_lines_no_eol in \<open>auto simp: no_eol_append safe_name_no_eol\<close>)
qed

lemma butlast_lines: "ls \<noteq> [] \<Longrightarrow> butlast (concat (map (\<lambda>l. l @ [LF]) ls)) = join_with LF ls"
  by (simp add: concat_lines)

lemma client_options:
  assumes "case i of SetEventId v \<Rightarrow> event_id v = Inr (SetEventId v) | _ \<Rightarrow> True"
  shows "foldl client_line st (id_fields i @ retry_fields r) =
    st\<lparr> cl_id := (case i of AbsentEventId \<Rightarrow> cl_id st | ClearEventId \<Rightarrow> [] | SetEventId v \<Rightarrow> v),
       cl_retry := (case r of NoRetry \<Rightarrow> cl_retry st | RetryAfter n \<Rightarrow> Some n) \<rparr>"
proof -
  have z: "CHR 0x00 \<notin> set v" if "event_id v = Inr (SetEventId v)" for v
    using that by (force simp: event_id_def list_ex_iff code_def split: if_splits)
  show ?thesis
    using assms z client_line_fields
    by (cases i; cases r) (simp_all add: id_fields_def retry_fields_def del: append_Cons append.simps)
qed

lemma client_dispatch_deliver:
  assumes "cl_data st = []" "cl_type st = []" "call_ok call"
  shows "client_dispatch (foldl client_line st (frame_lines call)) = deliver st call"
proof (cases call)
  case (Data v)
  have "frame_lines call = map (\<lambda>l. ''data: '' @ l) (text_lines v)" by (simp only: Data frame_lines.simps)
  moreover have "concat (map (\<lambda>l. l @ [LF]) (text_lines v)) \<noteq> []"
    using text_lines_not_Nil by (simp add: concat_lines)
  ultimately show ?thesis
    using assms Data text_lines_not_Nil [of v]
    by (simp add: client_data_lines client_dispatch_def deliver_def default_event_options_def butlast_lines)
next
  case (Named name vs options)
  let ?s = "st\<lparr> cl_type := safe_name name \<rparr>" and ?ls = "concat (map text_lines vs)"
  have ok: "case eo_id options of SetEventId v \<Rightarrow> event_id v = Inr (SetEventId v) | _ \<Rightarrow> True"
    using assms(3) Named by simp
  have f: "foldl client_line st (frame_lines call) =
      foldl client_line (foldl client_line ?s (id_fields (eo_id options) @ retry_fields (eo_retry options)))
        (map (\<lambda>l. ''data: '' @ l) ?ls)"
    by (simp only: Named frame_lines.simps foldl_Cons foldl_append client_line_fields)
  show ?thesis
    unfolding f client_options [OF ok] client_data_lines using assms Named
    by (cases st; cases "eo_id options"; cases "eo_retry options"; cases "?ls = []")
      (simp_all add: client_dispatch_def deliver_def Let_def butlast_lines safe_name_filter concat_lines del: concat_eq_Nil_conv)
next
  case (Keyed name key v)
  have "map (\<lambda>l. ''data: '' @ key @ '' '' @ l) (text_lines v) = map (\<lambda>l. ''data: '' @ l) (map (\<lambda>l. key @ '' '' @ l) (text_lines v))"
    by simp
  then have f: "foldl client_line st (frame_lines call) =
      foldl client_line (st\<lparr> cl_type := safe_name name \<rparr>) (map (\<lambda>l. ''data: '' @ l) (map (\<lambda>l. key @ '' '' @ l) (text_lines v)))"
    by (simp only: Keyed frame_lines.simps foldl_Cons client_line_fields)
  show ?thesis
    unfolding f client_data_lines using assms Keyed text_lines_not_Nil [of v]
    by (simp add: client_dispatch_def deliver_def default_event_options_def butlast_lines safe_name_filter concat_lines del: map_map)
qed

lemma client_reads_call:
  assumes "cl_data st = []" "cl_type st = []" "call_ok call"
  shows "client_read (to_bytes (call_event call) @ r) st = client_read r (deliver st call)"
proof -
  have "frame_lines call \<noteq> []" by (cases call) (simp_all add: text_lines_not_Nil)
  then show ?thesis
    using client_read_frame [of "frame_lines call" r st] frame_lines_no_eol [OF assms(3)]
      client_dispatch_deliver [OF assms] by (simp add: call_event_frame assms(3))
qed

lemma deliver_idle: "cl_data (deliver st call) = cl_data st" "cl_type (deliver st call) = cl_type st"
  by (simp_all add: deliver_def Let_def)

section \<open>Properties\<close>

text \<open>C38: a client that reads a stream of events gets exactly what the application passed to the
  constructors: one message per event that has data, with the event's name freed of line endings,
  the logical lines of its values as data, and the reconnection identifier and delay in force.
  No value, name or validated identifier can add, end or change a field.\<close>

theorem sse_stream_meaning:
  assumes "list_all call_ok calls"
  shows "client_read (concat (map (to_bytes \<circ> call_event) calls)) client_new = foldl deliver client_new calls"
proof -
  have "client_read (concat (map (to_bytes \<circ> call_event) calls)) st = foldl deliver st calls"
    if "cl_data st = []" "cl_type st = []" for st
    using assms that
    by (induction calls arbitrary: st) (simp_all add: client_reads_call deliver_idle, simp add: client_read_def)
  then show ?thesis by (simp add: client_new_def)
qed

theorem sse_stream_meaning_witness:
  "cl_messages (client_read (to_bytes (data_event (''a'' @ [CR, LF] @ ''b'')) @ to_bytes (keyed ''k'' ''x'' ''y'')) client_new) =
     [\<lparr> sm_type = ''message'', sm_data = ''a'' @ [LF] @ ''b'', sm_id = [] \<rparr>,
      \<lparr> sm_type = ''k'', sm_data = ''x y'', sm_id = [] \<rparr>]"
  using sse_stream_meaning [of "[Data (''a'' @ [CR, LF] @ ''b''), Keyed ''k'' ''x'' ''y'']"]
  by (simp add: no_eol_def deliver_def default_event_options_def client_new_def)

text \<open>The key of \<open>keyed\<close> is not freed of line endings: when the value has one line, a key with a
  line ending sets the reconnection identifier of the client.\<close>

lemma keyed_key_adds_field:
  "cl_id (client_read (to_bytes (keyed ''e'' (''k'' @ [LF] @ ''id: 7'') ''v'')) client_new) = ''7 v''"
  by code_simp

end
