(* ===== verification/Multipart.thy ===== *)
theory Multipart
  imports Roc_Str
begin

text \<open>
  \<open>src/platform/SplitList.roc\<close> and \<open>src/platform/MultipartFormData.roc\<close>: splitting a list at a
  separator, and the decoding of HTML form bodies.  \<open>None\<close> is a crash of the Roc program.
\<close>

section \<open>Splitting at a list\<close>

datatype marker = Stop nat | Start nat

definition sublist :: "nat \<Rightarrow> nat \<Rightarrow> 'a list \<Rightarrow> 'a list" where
  "sublist start n xs = take n (drop start xs)"

definition walk_help_find_starts :: "'a list \<Rightarrow> 'a list \<Rightarrow> marker list \<Rightarrow> nat \<Rightarrow> marker list" where
  "walk_help_find_starts input separator all_markers idx =
     (if input = [] \<or> separator = [] then []
      else if sublist idx (length separator) input = separator
      then all_markers @ [Stop idx] @ [Start (idx + length separator)]
      else all_markers)"

text \<open>The subtraction of 64-bit naturals in the third equation crashes when it underflows.\<close>

fun walk_split :: "'a list \<Rightarrow> marker list \<Rightarrow> 'a list list \<Rightarrow> 'a list list option" where
  "walk_split input [] state = Some state"
| "walk_split input (Stop stop # rest) state =
     (if stop = 0 then walk_split input rest state
      else walk_split input rest (state @ [sublist 0 stop input]))"
| "walk_split input (Start start # Stop stop # rest) state =
     (if stop < start then None
      else walk_split input rest (state @ [sublist start (stop - start) input]))"
| "walk_split input [Start start] state =
     (if start \<ge> length input then Some state
      else Some (state @ [sublist start (length input - start) input]))"
| "walk_split input (Start _ # Start _ # _) state = None"

definition split_on_list :: "'a list \<Rightarrow> 'a list \<Rightarrow> 'a list list option" where
  "split_on_list input separator =
     (let markers = foldl (walk_help_find_starts input separator) [] [0..<length input] in
      walk_split input markers [])"

section \<open>Multipart bodies\<close>

record form_data =
  fd_disposition :: string
  fd_type :: string
  fd_encoding :: string
  fd_data :: string

abbreviation newline :: string where "newline \<equiv> [CR, LF]"
abbreviation doubledash :: string where "doubledash \<equiv> ''--''"

definition parse_content :: "string \<Rightarrow> string \<Rightarrow> string \<Rightarrow> (string \<times> string) option" where
  "parse_content upper lower bytes =
     (let to_search_upper = newline @ upper; to_search_lower = newline @ lower;
          after_search = sublist (length to_search_upper) (length bytes) bytes in
      if starts_with bytes to_search_upper \<or> starts_with bytes to_search_lower then
        (case find_index (\<lambda>b. b = CR) after_search of
           Some next_line_start \<Rightarrow>
             Some (sublist 0 next_line_start after_search,
                   sublist next_line_start (length after_search) after_search)
         | None \<Rightarrow> None)
      else None)"

definition parse_content_disposition :: "string \<Rightarrow> (string \<times> string) option" where
  "parse_content_disposition = parse_content ''Content-Disposition:'' ''content-disposition:''"

definition parse_content_type :: "string \<Rightarrow> (string \<times> string) option" where
  "parse_content_type = parse_content ''Content-Type:'' ''content-type:''"

definition parse_content_transfer_encoding :: "string \<Rightarrow> (string \<times> string) option" where
  "parse_content_transfer_encoding = parse_content ''Content-Transfer-Encoding:'' ''content-transfer-encoding:''"

definition parse_all_headers :: "string \<Rightarrow> form_data option" where
  "parse_all_headers bytes =
     (case parse_content_disposition bytes of
        None \<Rightarrow> None
      | Some (disposition, first) \<Rightarrow>
          (case parse_content_type first of
             None \<Rightarrow>
               Some \<lparr> fd_disposition = disposition, fd_type = [], fd_encoding = [], fd_data = drop 4 first \<rparr>
           | Some (type, second) \<Rightarrow>
               (case parse_content_transfer_encoding second of
                  None \<Rightarrow>
                    Some \<lparr> fd_disposition = disposition, fd_type = type, fd_encoding = [],
                      fd_data = drop 4 second \<rparr>
                | Some (encoding, rest) \<Rightarrow>
                    Some \<lparr> fd_disposition = disposition, fd_type = type, fd_encoding = encoding,
                      fd_data = drop 4 rest \<rparr>)))"

datatype multipart_error =
  ExpectedEnclosedByBoundary | InvalidPart | Split_Crash
| InvalidMultipartFormData | ExpectedContentTypeHeader | InvalidContentTypeHeader

fun parse_parts :: "string list \<Rightarrow> form_data list \<Rightarrow> multipart_error + form_data list" where
  "parse_parts [] parsed = Inr parsed"
| "parse_parts (first # rest) parsed =
     (case parse_all_headers first of
        Some part \<Rightarrow> parse_parts rest (parsed @ [part])
      | None \<Rightarrow> Inl InvalidPart)"

definition parse_form_data :: "string \<Rightarrow> string \<Rightarrow> multipart_error + form_data list" where
  "parse_form_data body boundary =
     (let start_marker = doubledash @ boundary;
          end_marker = newline @ doubledash @ boundary @ doubledash @ newline;
          boundary_with_prefix = newline @ doubledash @ boundary in
      if starts_with body start_marker \<and> ends_with body end_marker then
        (case split_on_list (drop (length start_marker) body) boundary_with_prefix of
           None \<Rightarrow> Inl Split_Crash
         | Some pieces \<Rightarrow> parse_parts (butlast pieces) [])
      else Inl ExpectedEnclosedByBoundary)"

definition decode_multipart_form_data_boundary :: "(string \<times> string) list \<Rightarrow> multipart_error + string" where
  "decode_multipart_form_data_boundary headers =
     (case filter (\<lambda>(name, value). name = ''Content-Type'' \<or> name = ''content-type'') headers of
        [] \<Rightarrow> Inl ExpectedContentTypeHeader
      | (name, value) # _ \<Rightarrow>
          (case rsplit_once CHR ''='' value of
             Some (before, after) \<Rightarrow> Inr after
           | None \<Rightarrow> Inl InvalidContentTypeHeader))"

text \<open>A crash is not an error that \<open>map_err\<close> can replace.\<close>

definition parse_multipart_form_data :: "(string \<times> string) list \<Rightarrow> string \<Rightarrow> multipart_error + form_data list" where
  "parse_multipart_form_data headers body =
     bind_result (decode_multipart_form_data_boundary headers) (\<lambda>boundary.
       case parse_form_data body boundary of
         Inl Split_Crash \<Rightarrow> Inl Split_Crash
       | Inl _ \<Rightarrow> Inl InvalidMultipartFormData
       | Inr parts \<Rightarrow> Inr parts)"

section \<open>Printing\<close>

definition print_part :: "form_data \<Rightarrow> string" where
  "print_part p =
     newline @ ''Content-Disposition:'' @ fd_disposition p @
     (if fd_type p = [] then [] else newline @ ''Content-Type:'' @ fd_type p) @
     (if fd_encoding p = [] then [] else newline @ ''Content-Transfer-Encoding:'' @ fd_encoding p) @
     newline @ newline @ fd_data p"

definition print_form :: "string \<Rightarrow> form_data list \<Rightarrow> string" where
  "print_form boundary parts =
     concat (map (\<lambda>p. doubledash @ boundary @ print_part p @ newline) parts) @
     doubledash @ boundary @ doubledash @ newline"

section \<open>Lemmas on splitting\<close>

fun markers_from :: "'a list \<Rightarrow> nat \<Rightarrow> 'a list \<Rightarrow> marker list" where
  "markers_from sep k [] = []"
| "markers_from sep k (x # xs) =
     (if take (length sep) (x # xs) = sep then [Stop k, Start (k + length sep)] else []) @
     markers_from sep (Suc k) xs"

lemma foldl_markers:
  assumes "input \<noteq> []" "sep \<noteq> []"
  shows "k \<le> length input \<Longrightarrow> foldl (walk_help_find_starts input sep) ms [k..<length input] =
    ms @ markers_from sep k (drop k input)"
proof (induction "length input - k" arbitrary: k ms)
  case (Suc n)
  then have k: "k < length input" by simp
  then have d: "drop k input = input ! k # drop (Suc k) input" by (simp add: Cons_nth_drop_Suc)
  have "foldl (walk_help_find_starts input sep) ms [k..<length input] =
    walk_help_find_starts input sep ms k @ markers_from sep (Suc k) (drop (Suc k) input)"
    using Suc k by (simp add: upt_conv_Cons)
  then show ?case using assms by (simp add: d walk_help_find_starts_def sublist_def)
qed simp

lemma find_markers: "sep \<noteq> [] \<Longrightarrow> foldl (walk_help_find_starts input sep) [] [0..<length input] = markers_from sep 0 input"
  using foldl_markers [of input sep 0 "[]"] by (cases "input = []") auto

fun occurs :: "'a list \<Rightarrow> 'a list \<Rightarrow> bool" where
  "occurs sep [] = (sep = [])"
| "occurs sep (x # xs) = (take (length sep) (x # xs) = sep \<or> occurs sep xs)"

lemma markers_none: "sep \<noteq> [] \<Longrightarrow> \<not> occurs sep xs \<Longrightarrow> markers_from sep k xs = []"
  by (induction xs arbitrary: k) auto

lemma markers_skip: "x \<notin> set ys \<Longrightarrow> markers_from (x # t) k (ys @ r) = markers_from (x # t) (k + length ys) r"
  by (induction ys arbitrary: k) auto

text \<open>With a separator whose first element does not recur in it, the occurrences in a text are those
  inside a piece and the separators themselves.\<close>

lemma no_overlap:
  assumes "x \<notin> set t" "take (length (x # t)) (p @ (x # t) @ r) = x # t" "p \<noteq> []"
  shows "take (length (x # t)) p = x # t"
proof (cases "length (x # t) \<le> length p")
  case True
  with assms(2) show ?thesis by simp
next
  case False
  then have "(p @ (x # t) @ r) ! length p = (x # t) ! length p"
    using assms(2) by (metis not_le nth_take)
  moreover have "(p @ (x # t) @ r) ! length p = x" by simp
  moreover have "(x # t) ! length p \<in> set t"
    using False assms(3) by (cases p) auto
  ultimately show ?thesis using assms(1) by simp
qed

lemma markers_piece:
  assumes "x \<notin> set t" "\<not> occurs (x # t) p"
  shows "markers_from (x # t) k (p @ (x # t) @ r) =
    [Stop (k + length p), Start (k + length p + length (x # t))] @ markers_from (x # t) (k + length p + length (x # t)) r"
  using assms(2)
proof (induction p arbitrary: k)
  case Nil
  show ?case using markers_skip [OF assms(1), of t "Suc k" r] by simp
next
  case (Cons y p)
  then have "take (length (x # t)) ((y # p) @ (x # t) @ r) \<noteq> x # t"
    using no_overlap [OF assms(1), of "y # p" r] by auto
  moreover have "\<not> occurs (x # t) p" using Cons.prems by simp
  ultimately show ?case using Cons.IH [of "Suc k"] by simp
qed

fun pieces_text :: "'a list \<Rightarrow> 'a list list \<Rightarrow> 'a list" where
  "pieces_text sep [] = []"
| "pieces_text sep (p # ps) = sep @ p @ pieces_text sep ps"

lemma walk_pieces:
  assumes "x \<notin> set t" "\<forall>p\<in>set ps. \<not> occurs (x # t) p" "\<not> occurs (x # t) q"
  shows "input = pre @ q @ pieces_text (x # t) ps \<Longrightarrow> ps \<noteq> [] \<Longrightarrow> last ps \<noteq> [] \<Longrightarrow>
    walk_split input (Start (length pre) # markers_from (x # t) (length pre) (q @ pieces_text (x # t) ps)) st =
      Some (st @ q # ps)"
  using assms(2,3)
proof (induction ps arbitrary: pre q st)
  case (Cons p ps)
  let ?pre = "pre @ q @ (x # t)"
  have m: "markers_from (x # t) (length pre) (q @ pieces_text (x # t) (p # ps)) =
    Stop (length pre + length q) # Start (length ?pre) # markers_from (x # t) (length ?pre) (p @ pieces_text (x # t) ps)"
    using markers_piece [OF assms(1), of q "length pre" "p @ pieces_text (x # t) ps"] Cons.prems by (simp add: add.assoc)
  have s: "sublist (length pre) (length pre + length q - length pre) input = q"
    using Cons.prems(1) by (simp add: sublist_def)
  show ?case
  proof (cases "ps = []")
    case True
    have "markers_from (x # t) (length ?pre) p = []" using Cons.prems by (intro markers_none) auto
    moreover have "sublist (length ?pre) (length input - length ?pre) input = p"
      using Cons.prems(1) True by (simp add: sublist_def)
    ultimately show ?thesis using True Cons.prems s unfolding m by simp
  next
    case False
    have "walk_split input (Start (length ?pre) # markers_from (x # t) (length ?pre) (p @ pieces_text (x # t) ps)) (st @ [q]) =
        Some ((st @ [q]) @ p # ps)"
      using Cons.prems False by (intro Cons.IH) auto
    with s show ?thesis unfolding m by simp
  qed
qed simp

lemma split_on_list_pieces:
  assumes "x \<notin> set t" "\<forall>p\<in>set (q # ps). \<not> occurs (x # t) p" "q \<noteq> []" "ps \<noteq> []" "last ps \<noteq> []"
  shows "split_on_list (q @ pieces_text (x # t) ps) (x # t) = Some (q # ps)"
proof -
  obtain p ps' where ps: "ps = p # ps'" using assms(4) by (cases ps) auto
  let ?input = "q @ pieces_text (x # t) ps" and ?pre = "q @ (x # t)"
  have m: "markers_from (x # t) 0 ?input =
      Stop (length q) # Start (length ?pre) # markers_from (x # t) (length ?pre) (p @ pieces_text (x # t) ps')"
    using markers_piece [OF assms(1), of q 0 "p @ pieces_text (x # t) ps'"] assms(2) by (simp add: ps)
  have s: "sublist 0 (length q) ?input = q" by (simp add: sublist_def)
  have "walk_split ?input (Start (length ?pre) # markers_from (x # t) (length ?pre) (p @ pieces_text (x # t) ps')) [q] =
      Some ([q] @ p # ps')"
  proof (cases "ps' = []")
    case True
    have "markers_from (x # t) (length ?pre) p = []" using assms(2) ps by (intro markers_none) auto
    then show ?thesis using True assms(5) ps by (simp add: sublist_def)
  next
    case False
    with walk_pieces [OF assms(1), of ps' p ?input ?pre "[q]"] assms(2,5) ps show ?thesis by simp
  qed
  moreover have f: "foldl (walk_help_find_starts ?input (x # t)) [] [0..<length ?input] = markers_from (x # t) 0 ?input"
    by (rule find_markers) simp
  ultimately show ?thesis unfolding split_on_list_def Let_def f m using assms(3) s ps by simp
qed

section \<open>Lemmas on multipart bodies\<close>

lemma parse_content_hit:
  assumes "CR \<notin> set v"
  shows "parse_content upper lower (newline @ upper @ v @ CR # r) = Some (v, CR # r)"
  using find_index_first [OF assms, of r] by (simp add: parse_content_def Let_def sublist_def starts_with_def)

lemma parse_content_miss: "parse_content (a # upper) (b # lower) (CR # LF # c # r) = None" if "c \<noteq> a" "c \<noteq> b"
  using that by (simp add: parse_content_def starts_with_def)

definition part_ok :: "form_data \<Rightarrow> bool" where
  "part_ok p = (CR \<notin> set (fd_disposition p) \<and> CR \<notin> set (fd_type p) \<and> CR \<notin> set (fd_encoding p) \<and>
     (fd_type p = [] \<longrightarrow> fd_encoding p = []))"

lemma parse_print_part:
  assumes "part_ok p"
  shows "parse_all_headers (print_part p) = Some p"
proof -
  have d: "parse_content_disposition (newline @ ''Content-Disposition:'' @ fd_disposition p @ CR # r) = Some (fd_disposition p, CR # r)" for r
    using assms unfolding parse_content_disposition_def by (intro parse_content_hit) (simp add: part_ok_def)
  have t: "parse_content_type (newline @ ''Content-Type:'' @ fd_type p @ CR # r) = Some (fd_type p, CR # r)" for r
    using assms unfolding parse_content_type_def by (intro parse_content_hit) (simp add: part_ok_def)
  have e: "parse_content_transfer_encoding (newline @ ''Content-Transfer-Encoding:'' @ fd_encoding p @ CR # r) = Some (fd_encoding p, CR # r)" for r
    using assms unfolding parse_content_transfer_encoding_def by (intro parse_content_hit) (simp add: part_ok_def)
  have nt: "parse_content_type (newline @ newline @ r) = None" "parse_content_transfer_encoding (newline @ newline @ r) = None" for r
    unfolding parse_content_type_def parse_content_transfer_encoding_def by (simp_all add: parse_content_miss)
  consider "fd_type p = []" "fd_encoding p = []" | "fd_type p \<noteq> []" "fd_encoding p = []" | "fd_type p \<noteq> []" "fd_encoding p \<noteq> []"
    using assms by (auto simp: part_ok_def)
  then show ?thesis
  proof cases
    case 1
    then show ?thesis using d nt by (simp add: parse_all_headers_def print_part_def)
  next
    case 2
    then show ?thesis using d t nt by (simp add: parse_all_headers_def print_part_def)
  next
    case 3
    then show ?thesis using d t e by (simp add: parse_all_headers_def print_part_def)
  qed
qed

lemma parse_parts_print: "list_all part_ok ps \<Longrightarrow> parse_parts (map print_part ps) done = Inr (done @ ps)"
  by (induction ps arbitrary: "done") (simp_all add: parse_print_part)

lemma pieces_text_snoc: "pieces_text sep (ps @ [q]) = pieces_text sep ps @ sep @ q"
  by (induction ps) auto

abbreviation delimiter :: "string \<Rightarrow> string" where
  "delimiter boundary \<equiv> newline @ doubledash @ boundary"

lemma print_form_pieces:
  "print_form boundary (p # ps) =
     doubledash @ boundary @ print_part p @ pieces_text (delimiter boundary) (map print_part ps @ [doubledash @ newline])"
  by (induction ps arbitrary: p) (simp_all add: print_form_def)

section \<open>Properties\<close>

text \<open>C39: decoding a multipart body gives back the parts it was printed from.  For a boundary
  without a carriage return or an equals sign, and parts in which the delimiter does not occur,
  whose field values have one line, the decoder returns exactly the parts, in order, with their
  bytes unchanged; in particular the splitting never crashes.\<close>

theorem multipart_roundtrip:
  assumes "parts \<noteq> []" "list_all part_ok parts" "CR \<notin> set boundary" "CHR ''='' \<notin> set boundary"
    and "\<forall>p\<in>set parts. \<not> occurs (delimiter boundary) (print_part p)"
  shows "parse_multipart_form_data [(''content-type'', ''multipart/form-data; boundary='' @ boundary)]
      (print_form boundary parts) = Inr parts"
proof -
  obtain p ps where ps: "parts = p # ps" using assms(1) by (cases parts) auto
  let ?t = "[LF] @ doubledash @ boundary"
  have "rsplit_once CHR ''='' (''multipart/form-data; boundary'' @ CHR ''='' # boundary) = Some (''multipart/form-data; boundary'', boundary)"
    using assms(4) by (rule rsplit_once_char)
  then have b: "decode_multipart_form_data_boundary [(''content-type'', ''multipart/form-data; boundary='' @ boundary)] = Inr boundary"
    by (simp add: decode_multipart_form_data_boundary_def)
  have "split_on_list (print_part p @ pieces_text (CR # ?t) (map print_part ps @ [doubledash @ newline])) (CR # ?t) =
      Some (print_part p # map print_part ps @ [doubledash @ newline])"
    using assms(3,5) ps by (intro split_on_list_pieces) (auto simp: print_part_def)
  moreover have "ends_with (print_form boundary parts) (newline @ doubledash @ boundary @ doubledash @ newline)"
    unfolding ps print_form_pieces pieces_text_snoc ends_with_iff by force
  moreover have "butlast (print_part p # map print_part ps @ [doubledash @ newline]) = map print_part parts"
    by (simp add: ps butlast_append)
  ultimately have "parse_form_data (print_form boundary parts) boundary = Inr parts"
    using parse_parts_print [OF assms(2), of "[]"]
    by (simp add: parse_form_data_def Let_def starts_with_def ps print_form_pieces)
  with b show ?thesis by (simp add: parse_multipart_form_data_def)
qed

definition sample_parts :: "form_data list" where
  "sample_parts =
     [\<lparr> fd_disposition = '' form-data; name=a'', fd_type = [], fd_encoding = [], fd_data = ''1'' @ newline @ ''2'' \<rparr>,
      \<lparr> fd_disposition = '' form-data; name=f'', fd_type = '' text/plain'', fd_encoding = '' binary'', fd_data = [] \<rparr>]"

theorem multipart_roundtrip_witness:
  "parse_multipart_form_data [(''content-type'', ''multipart/form-data; boundary='' @ ''XyZ'')]
     (print_form ''XyZ'' sample_parts) = Inr sample_parts"
proof (rule multipart_roundtrip)
  show "sample_parts \<noteq> []" "list_all part_ok sample_parts"
    "\<forall>p\<in>set sample_parts. \<not> occurs (delimiter ''XyZ'') (print_part p)" by code_simp+
qed simp_all

text \<open>
  Three limits of the decoder.  A separator that overlaps itself makes the splitting crash; a field
  of a part other than the three in their fixed order is taken into its data; and a boundary with
  an equals sign, which RFC 2046 allows, is cut at it.
\<close>

lemma split_on_list_overlap_crashes: "split_on_list [1, 1, 1 :: nat] [1, 1] = None"
  by code_simp

lemma transfer_encoding_without_type_in_data:
  "parse_all_headers (newline @ ''Content-Disposition: d'' @ newline @ ''Content-Transfer-Encoding: 8bit'' @ newline @ newline @ ''x'') =
     Some \<lparr> fd_disposition = '' d'', fd_type = [], fd_encoding = [],
       fd_data = ''ntent-Transfer-Encoding: 8bit'' @ newline @ newline @ ''x'' \<rparr>"
  by code_simp

lemma boundary_cut_at_equals:
  "decode_multipart_form_data_boundary [(''content-type'', ''multipart/form-data; boundary=a=b'')] = Inr ''b''"
  by code_simp

end
