(* ===== verification/Html.thy ===== *)
theory Html
  imports Roc_Str
begin

text \<open>
  \<open>src/platform/Html.roc\<close> and \<open>src/platform/Attribute.roc\<close>: rendering of HTML trees, against
  the tokens an HTML parser reads from the rendered text.
\<close>

section \<open>Rendering\<close>

type_synonym attribute = "string \<times> string"

definition raw_name :: "attribute \<Rightarrow> string" where "raw_name a = fst a"
definition raw_value :: "attribute \<Rightarrow> string" where "raw_value a = snd a"

datatype html_node =
  Text string | Raw string | Element string "attribute list" "html_node list" | VoidElement string "attribute list"

definition escape_byte :: "bool \<Rightarrow> char \<Rightarrow> string" where
  "escape_byte escape_quotes byte =
     (if code byte = 38 then ''&amp;''
      else if code byte = 60 then ''&lt;''
      else if code byte = 62 then ''&gt;''
      else if code byte = 34 \<and> escape_quotes then ''&quot;''
      else if code byte = 39 \<and> escape_quotes then ''&#39;''
      else if code byte = 10 \<and> escape_quotes then ''&#10;''
      else if code byte = 13 \<and> escape_quotes then ''&#13;''
      else [byte])"

definition escape_html_bytes :: "string \<Rightarrow> bool \<Rightarrow> string" where
  "escape_html_bytes value escape_quotes =
     (let escaped_bytes = foldl (\<lambda>bytes byte. bytes @ escape_byte escape_quotes byte) [] value in
      if utf8_valid escaped_bytes then escaped_bytes else [])"

definition escape_text :: "string \<Rightarrow> string" where
  "escape_text value = escape_html_bytes value False"

definition escape_attribute :: "string \<Rightarrow> string" where
  "escape_attribute value = escape_html_bytes value True"

abbreviation quote :: char where "quote \<equiv> CHR 0x22"

definition render_attribute :: "attribute \<Rightarrow> string" where
  "render_attribute attr = raw_name attr @ ''='' @ [quote] @ escape_attribute (raw_value attr) @ [quote]"

definition render_attributes :: "attribute list \<Rightarrow> string" where
  "render_attributes attrs =
     (if attrs = [] then [] else '' '' @ join_with CHR '' '' (map render_attribute attrs))"

fun render_without_doc_type :: "html_node \<Rightarrow> string" where
  "render_without_doc_type (Text value) = escape_text value"
| "render_without_doc_type (Raw value) = value"
| "render_without_doc_type (Element tag attrs children) =
     ''<'' @ tag @ render_attributes attrs @ ''>'' @ concat (map render_without_doc_type children) @
     ''</'' @ tag @ ''>''"
| "render_without_doc_type (VoidElement tag attrs) = ''<'' @ tag @ render_attributes attrs @ ''>''"

definition render_children :: "html_node list \<Rightarrow> string" where
  "render_children children = concat (map render_without_doc_type children)"

definition render :: "html_node \<Rightarrow> string" where
  "render node = ''<!DOCTYPE html>'' @ render_without_doc_type node"

section \<open>Tokens\<close>

text \<open>The character references that occur in rendered text.\<close>

definition char_refs :: "(string \<times> char) list" where
  "char_refs = [(''amp;'', CHR ''&''), (''lt;'', CHR ''<''), (''gt;'', CHR ''>''), (''quot;'', quote),
     (''#39;'', CHR 0x27), (''#10;'', CHR 0x0A), (''#13;'', CHR 0x0D)]"

definition char_ref :: "string \<Rightarrow> (char \<times> string) option" where
  "char_ref s =
     (case find (\<lambda>(name, c). starts_with s name) char_refs of
        None \<Rightarrow> None | Some (name, c) \<Rightarrow> Some (c, drop (length name) s))"

lemma split_once_length: "split_once c s = Some (a, b) \<Longrightarrow> length b < length s"
  by (auto simp: split_once_Some)

lemma char_ref_length: "char_ref s = Some (c, r) \<Longrightarrow> length r \<le> length s"
  by (auto simp: char_ref_def split: option.splits)

function decode_refs :: "string \<Rightarrow> string" where
  "decode_refs [] = []"
| "decode_refs (c # s) =
     (if c = CHR ''&'' then
        (case char_ref s of None \<Rightarrow> c # decode_refs s | Some (d, r) \<Rightarrow> d # decode_refs r)
      else c # decode_refs s)"
  by pat_completeness auto
termination
  by (relation "measure length") (auto dest: char_ref_length)

text \<open>After the name of a start tag: attributes with double-quoted values, then the end of the tag.\<close>

function tag_attributes :: "string \<Rightarrow> (attribute list \<times> string) option" where
  "tag_attributes [] = None"
| "tag_attributes (c # r) =
     (if c = CHR ''>'' then Some ([], r)
      else if c \<noteq> CHR '' '' then None
      else (case split_once CHR ''='' r of
              None \<Rightarrow> None
            | Some (name, r1) \<Rightarrow>
                if \<not> starts_with r1 [quote] then None
                else (case split_once quote (tl r1) of
                        None \<Rightarrow> None
                      | Some (value, r2) \<Rightarrow>
                          map_option (\<lambda>(attrs, rest). ((name, decode_refs value) # attrs, rest)) (tag_attributes r2))))"
  by pat_completeness auto
termination
  by (relation "measure length") (auto dest!: split_once_length)

lemma tag_attributes_length: "tag_attributes s = Some (attrs, r) \<Longrightarrow> length r < length s"
proof (induction s arbitrary: attrs rule: tag_attributes.induct)
  case (2 c s)
  show ?case
  proof (cases "c = CHR ''>''")
    case True
    with 2(2) show ?thesis by simp
  next
    case False
    with 2(2) obtain name r1 val r2 attrs' where a: "c = CHR '' ''" "split_once CHR ''='' s = Some (name, r1)"
      "starts_with r1 [quote]" "split_once quote (tl r1) = Some (val, r2)" "tag_attributes r2 = Some (attrs', r)"
      by (auto split: if_splits option.splits)
    have "length r < length r2" using 2(1) [OF False _ a(2) refl _ a(4) refl a(5)] a(1,3) by simp
    moreover have "length r2 < length (tl r1)" "length r1 < length s" using a(2,4) by (auto simp: split_once_Some)
    ultimately show ?thesis by simp
  qed
qed simp

lemma start_tag_length: "tag_attributes (dropWhile P s) = Some (attrs, r) \<Longrightarrow> length r < length s"
  using tag_attributes_length [of "dropWhile P s" attrs r] length_dropWhile_le [of P s] by simp

datatype html_token = Character char | Start_Tag string "attribute list" | End_Tag string

definition tag_char :: "char \<Rightarrow> bool" where
  "tag_char c = (c \<noteq> CHR '' '' \<and> c \<noteq> CHR ''>'' \<and> c \<noteq> CHR ''/'' \<and> c \<noteq> CHR 0x0A \<and> c \<noteq> CHR 0x09 \<and> c \<noteq> CHR 0x0C)"

function html_tokens :: "string \<Rightarrow> html_token list option" where
  "html_tokens [] = Some []"
| "html_tokens (c # r) =
     (if c = CHR ''<'' then
        (if starts_with r ''/'' then
           (case split_once CHR ''>'' (tl r) of
              None \<Rightarrow> None
            | Some (name, r1) \<Rightarrow> map_option ((#) (End_Tag name)) (html_tokens r1))
         else (case tag_attributes (dropWhile tag_char r) of
                 None \<Rightarrow> None
               | Some (attrs, r1) \<Rightarrow> map_option ((#) (Start_Tag (takeWhile tag_char r) attrs)) (html_tokens r1)))
      else if c = CHR ''&'' then
        (case char_ref r of
           None \<Rightarrow> map_option ((#) (Character c)) (html_tokens r)
         | Some (d, r1) \<Rightarrow> map_option ((#) (Character d)) (html_tokens r1))
      else map_option ((#) (Character c)) (html_tokens r))"
  by pat_completeness auto
termination
  by (relation "measure length") (auto dest!: split_once_length char_ref_length start_tag_length)

declare html_tokens.simps(2) [simp del]

text \<open>The tokens a tree stands for, and the trees whose syntax is trusted: no raw parts, tag and
  attribute names that are names, and text in UTF-8.\<close>

fun node_tokens :: "html_node \<Rightarrow> html_token list" where
  "node_tokens (Text value) = map Character value"
| "node_tokens (Raw value) = []"
| "node_tokens (Element tag attrs children) =
     Start_Tag tag attrs # concat (map node_tokens children) @ [End_Tag tag]"
| "node_tokens (VoidElement tag attrs) = [Start_Tag tag attrs]"

definition tag_ok :: "string \<Rightarrow> bool" where
  "tag_ok tag = (tag \<noteq> [] \<and> list_all tag_char tag)"

definition attribute_ok :: "attribute \<Rightarrow> bool" where
  "attribute_ok attr = (CHR ''='' \<notin> set (fst attr) \<and> utf8_valid (snd attr))"

fun node_ok :: "html_node \<Rightarrow> bool" where
  "node_ok (Text value) = utf8_valid value"
| "node_ok (Raw value) = False"
| "node_ok (Element tag attrs children) = (tag_ok tag \<and> list_all attribute_ok attrs \<and> (\<forall>c\<in>set children. node_ok c))"
| "node_ok (VoidElement tag attrs) = (tag_ok tag \<and> list_all attribute_ok attrs)"

section \<open>Lemmas\<close>

lemma utf8_valid_ascii_append: "list_all is_ascii p \<Longrightarrow> utf8_valid (p @ s) = utf8_valid s"
  by (induction p) (auto simp: is_ascii_def)

lemma escape_byte_high: "128 \<le> code c \<Longrightarrow> escape_byte q c = [c]"
  by (simp add: escape_byte_def)

lemma escape_byte_ascii: "code c < 128 \<Longrightarrow> list_all is_ascii (escape_byte q c)"
  by (simp add: escape_byte_def is_ascii_def code_def)

definition escaped :: "bool \<Rightarrow> string \<Rightarrow> string" where
  "escaped q s = concat (map (escape_byte q) s)"

lemma escaped_simps [simp]: "escaped q [] = []" "escaped q (c # s) = escape_byte q c @ escaped q s"
  by (simp_all add: escaped_def)

lemma is_cont_high: "is_cont c \<Longrightarrow> 128 \<le> code c"
  by (simp add: is_cont_def)

lemma utf8_valid_escaped: "utf8_valid s \<Longrightarrow> utf8_valid (escaped q s)"
proof (induction s rule: utf8_valid.induct)
  case (2 a s)
  show ?case
  proof (cases "code a < 128")
    case True
    with 2 show ?thesis by (simp add: utf8_valid_ascii_append escape_byte_ascii)
  next
    case False
    with 2 show ?thesis
      by (auto simp: escape_byte_high is_cont_high split: if_splits list.splits)
  qed
qed simp

lemma foldl_append_concat: "foldl (\<lambda>bytes byte. bytes @ f byte) acc s = acc @ concat (map f s)"
  by (induction s arbitrary: acc) auto

lemma escape_html_bytes_eq: "utf8_valid s \<Longrightarrow> escape_html_bytes s q = escaped q s"
  using utf8_valid_escaped [of s q] by (simp add: escape_html_bytes_def foldl_append_concat escaped_def)

lemma char_ref_names:
  "char_ref (''amp;'' @ r) = Some (CHR ''&'', r)" "char_ref (''lt;'' @ r) = Some (CHR ''<'', r)"
  "char_ref (''gt;'' @ r) = Some (CHR ''>'', r)" "char_ref (''quot;'' @ r) = Some (quote, r)"
  "char_ref (''#39;'' @ r) = Some (CHR 0x27, r)" "char_ref (''#10;'' @ r) = Some (CHR 0x0A, r)"
  "char_ref (''#13;'' @ r) = Some (CHR 0x0D, r)"
  by (simp_all add: char_ref_def char_refs_def starts_with_def)

lemma code_eqs:
  "code c = 38 \<longleftrightarrow> c = CHR ''&''" "code c = 60 \<longleftrightarrow> c = CHR ''<''" "code c = 62 \<longleftrightarrow> c = CHR ''>''"
  "code c = 34 \<longleftrightarrow> c = quote" "code c = 39 \<longleftrightarrow> c = CHR 0x27" "code c = 10 \<longleftrightarrow> c = CHR 0x0A" "code c = 13 \<longleftrightarrow> c = CHR 0x0D"
  using code_inj [of c "CHR ''&''"] code_inj [of c "CHR ''<''"] code_inj [of c "CHR ''>''"] code_inj [of c quote]
    code_inj [of c "CHR 0x27"] code_inj [of c "CHR 0x0A"] code_inj [of c "CHR 0x0D"]
  by (auto simp: code_def)

lemma escape_byte_cases:
  obtains (ref) name where "escape_byte q c = CHR ''&'' # name" "\<And>r. char_ref (name @ r) = Some (c, r)"
      "quote \<notin> set name" "CHR ''<'' \<notin> set name"
    | (plain) "escape_byte q c = [c]" "c \<noteq> CHR ''&''" "c \<noteq> CHR ''<''" "q \<Longrightarrow> c \<noteq> quote"
proof -
  consider "c \<in> {CHR ''&'', CHR ''<'', CHR ''>''}" | "q" "c \<in> {quote, CHR 0x27, CHR 0x0A, CHR 0x0D}"
    | "c \<notin> {CHR ''&'', CHR ''<'', CHR ''>''}" "\<not> (q \<and> c \<in> {quote, CHR 0x27, CHR 0x0A, CHR 0x0D})"
    by blast
  then show thesis
  proof cases
    case 1
    then show thesis
      using ref [of "''amp;''"] ref [of "''lt;''"] ref [of "''gt;''"] char_ref_names
      by (auto simp: escape_byte_def code_eqs)
  next
    case 2
    then show thesis
      using ref [of "''quot;''"] ref [of "''#39;''"] ref [of "''#10;''"] ref [of "''#13;''"] char_ref_names
      by (auto simp: escape_byte_def code_eqs)
  next
    case 3
    then have e: "escape_byte q c = [c]" by (cases q) (simp_all add: escape_byte_def code_eqs)
    show thesis by (rule plain [OF e]) (use 3 in simp_all)
  qed
qed

lemma html_tokens_escaped: "html_tokens (escaped False v @ r) = map_option ((@) (map Character v)) (html_tokens r)"
proof (induction v)
  case Nil
  show ?case by (cases "html_tokens r") simp_all
next
  case (Cons c v)
  show ?case
    by (cases rule: escape_byte_cases [of False c]; cases "html_tokens r") (simp_all add: Cons html_tokens.simps(2))
qed

lemma decode_refs_escaped: "decode_refs (escaped True v) = v"
proof (induction v)
  case (Cons c v)
  show ?case by (cases rule: escape_byte_cases [of True c]) (simp_all add: Cons)
qed simp

lemma escaped_no_quote: "quote \<notin> set (escaped True v)"
proof (induction v)
  case (Cons c v)
  show ?case by (cases rule: escape_byte_cases [of True c]) (use Cons in auto)
qed simp

lemma render_attributes_concat: "render_attributes attrs = concat (map (\<lambda>a. CHR '' '' # render_attribute a) attrs)"
proof -
  have "CHR '' '' # join_with CHR '' '' (map render_attribute (a # as)) = concat (map (\<lambda>a. CHR '' '' # render_attribute a) (a # as))" for a as
    by (induction as arbitrary: a) auto
  then show ?thesis by (cases attrs) (simp_all add: render_attributes_def)
qed

lemma tag_attributes_render:
  "list_all attribute_ok attrs \<Longrightarrow> tag_attributes (render_attributes attrs @ CHR ''>'' # r) = Some (attrs, r)"
proof (induction attrs)
  case Nil
  show ?case by (simp add: render_attributes_def)
next
  case (Cons a attrs)
  obtain n v where a: "a = (n, v)" by (cases a)
  let ?rest = "render_attributes attrs @ CHR ''>'' # r"
  have e: "render_attributes (a # attrs) @ CHR ''>'' # r =
      CHR '' '' # n @ CHR ''='' # quote # escaped True v @ quote # ?rest"
    using Cons.prems
    by (simp add: render_attributes_concat render_attribute_def a raw_name_def raw_value_def escape_attribute_def escape_html_bytes_eq attribute_ok_def)
  have "split_once CHR ''='' (n @ CHR ''='' # quote # escaped True v @ quote # ?rest) = Some (n, quote # escaped True v @ quote # ?rest)"
    using Cons.prems by (simp add: split_once_Some a attribute_ok_def)
  moreover have "split_once quote (escaped True v @ quote # ?rest) = Some (escaped True v, ?rest)"
    using escaped_no_quote by (simp add: split_once_Some)
  ultimately show ?case
    unfolding e using Cons by (simp add: starts_with_def decode_refs_escaped a)
qed

lemma attributes_boundary: "\<exists>c s. render_attributes attrs @ CHR ''>'' # r = c # s \<and> \<not> tag_char c"
  by (cases attrs) (auto simp: render_attributes_concat tag_char_def)

lemma html_tokens_start:
  assumes "tag_ok tag" "list_all attribute_ok attrs"
  shows "html_tokens (CHR ''<'' # tag @ render_attributes attrs @ CHR ''>'' # r) =
    map_option ((#) (Start_Tag tag attrs)) (html_tokens r)"
proof -
  obtain c s where cs: "render_attributes attrs @ CHR ''>'' # r = c # s" "\<not> tag_char c"
    using attributes_boundary by blast
  have t: "list_all tag_char tag" "tag \<noteq> []" using assms(1) by (simp_all add: tag_ok_def)
  have "takeWhile tag_char (tag @ c # s) = tag" "dropWhile tag_char (tag @ c # s) = c # s"
    using t(1) cs(2) by (induction tag) auto
  moreover have "\<not> starts_with (tag @ c # s) ''/''"
    using t by (cases tag) (auto simp: starts_with_def tag_char_def)
  ultimately show ?thesis
    using tag_attributes_render [OF assms(2), of r] unfolding cs(1) by (simp add: html_tokens.simps(2))
qed

lemma html_tokens_end:
  assumes "tag_ok tag"
  shows "html_tokens (CHR ''<'' # CHR ''/'' # tag @ CHR ''>'' # r) = map_option ((#) (End_Tag tag)) (html_tokens r)"
proof -
  have "split_once CHR ''>'' (tag @ CHR ''>'' # r) = Some (tag, r)"
    using assms by (auto simp: split_once_Some tag_ok_def list_all_iff tag_char_def)
  then show ?thesis by (simp add: starts_with_def html_tokens.simps(2))
qed

lemma html_tokens_concat:
  assumes "\<And>c r. c \<in> set cs \<Longrightarrow> html_tokens (f c @ r) = map_option ((@) (g c)) (html_tokens r)"
  shows "html_tokens (concat (map f cs) @ r) = map_option ((@) (concat (map g cs))) (html_tokens r)"
  using assms by (induction cs; cases "html_tokens r") simp_all

lemma html_tokens_node: "node_ok n \<Longrightarrow> html_tokens (render_without_doc_type n @ r) = map_option ((@) (node_tokens n)) (html_tokens r)"
proof (induction n arbitrary: r)
  case (Text v)
  then show ?case by (simp add: escape_text_def escape_html_bytes_eq html_tokens_escaped)
next
  case (Element tag attrs children)
  have "html_tokens (concat (map render_without_doc_type children) @ s) =
      map_option ((@) (concat (map node_tokens children))) (html_tokens s)" for s
    using Element by (intro html_tokens_concat) auto
  with Element.prems show ?case
    by (cases "html_tokens r") (simp_all add: html_tokens_start html_tokens_end)
next
  case (VoidElement tag attrs)
  then show ?case by (cases "html_tokens r") (simp_all add: html_tokens_start)
qed simp

section \<open>Properties\<close>



end
