(* ===== verification/Spec2Isabelle.thy ===== *)
theory Spec2Isabelle
  imports Recycling_Alloc Bounded_Gate File_Stream Request_Handler Request_Body Sse Multipart Html
begin

text \<open>
  Verification development of \<open>basic-webserver\<close>: the Rust host (\<open>src/src\<close>) that embeds
  a Roc application in an HTTP server, and the pure parts of its Roc platform (\<open>src/platform\<close>).

  \<^bold>\<open>The program.\<close>  A request arrives on a hyper connection.  The host checks its control data
  (\<open>request_target.rs\<close>) and its size (\<open>request_limits.rs\<close>), asks the native router
  (\<open>native_router.rs\<close>) whether a file, a probe or the metrics answer it, and otherwise submits
  a job to a fixed pool of Roc threads (\<open>roc_executor.rs\<close>).  File plans go to the file service
  (\<open>file_server.rs\<close>), which resolves the path below a capability root, evaluates conditions and
  ranges, and streams the file.  Responses get a content coding (\<open>compression.rs\<close>) and are
  finalised (\<open>response.rs\<close>) before hyper writes them.  Resources that Roc code holds (readiness
  gates, sockets, files) live in slot heaps (\<open>host_resource.rs\<close>, \<open>readiness.rs\<close>); blocking work is
  admitted by a bounded gate (\<open>bounded_gate.rs\<close>); \<open>shutdown.rs\<close> picks the shutdown cause and
  drains the requests in flight.

  \<^bold>\<open>Conventions.\<close>  A byte is a \<open>char\<close> and a string a list of them.  A fallible function
  returns a sum with the error on the left; a panic of the source is an error constructor of its
  own or \<open>None\<close>, so that absence of panics is a theorem.  Machine integers are words where they
  wrap or saturate (tickets, generations, counters), naturals with the bound written out
  elsewhere.  Mutex-protected code is a function on the protected state for each critical
  section, and a step relation over a world (the state, the threads and what they hold) for
  their interleavings.  Atomic operations are sequentially consistent steps.  Code of other
  packages is a parameter: a record of operations and a locale with the documented laws, with an
  interpretation on a concrete instance, on which the witnesses evaluate.

  \<^bold>\<open>Theories, sources and results.\<close>
  \<^item> \<open>Prelude\<close>: results, bounded integers, strings (splitting, trimming, decimal numbers,
    UTF-8) as the Rust library defines them, and the lemmas shared by all components.
  \<^item> \<open>Http_Crate\<close>: the interface of the \<open>http\<close> crate (header maps, names and values), locale
    \<open>http_laws\<close>, instance \<open>list_http\<close>.
  \<^item> \<open>Ip_Address\<close>: \<open>Ipv6Addr::from_str\<close> of the standard library.
  \<^item> \<open>Request_Target\<close> (\<open>request_target.rs\<close>, whole): validation accepts only consistent control
    data, never panics, and \<open>parse_authority\<close> accepts exactly the authority grammar.
  \<^item> \<open>Request_Limits\<close> (\<open>request_limits.rs\<close>, whole): exact admission and the HTTP/2 setting.
  \<^item> \<open>Compression\<close> (\<open>compression.rs\<close>: negotiation, eligibility, headers, one encoder step):
    the coding chosen is the optimum the field allows; the quality grammar.
  \<^item> \<open>Recycling_Alloc\<close> (\<open>compression.rs\<close>: the recycling allocator over a heap of boxes): its
    accounting invariant, and recycled memory is fresh and unaliased.
  \<^item> \<open>Response\<close> (\<open>response.rs\<close>): framing of every finalised response, idempotence, and that
    accepted application responses and the fallback response finalise.
  \<^item> \<open>Admission\<close>: locale \<open>bounded_admission\<close>, the contract of a bounded server of requests,
    interpreted by the gate and by the executor.
  \<^item> \<open>Bounded_Gate\<close> (\<open>bounded_gate.rs\<close>): bounds, no lost wake-up without idle waiters, and the
    lost wake-up with one.
  \<^item> \<open>Roc_Executor\<close> (\<open>roc_executor.rs\<close>): conservation and order of jobs, exact cancellation.
  \<^item> \<open>Host_Resource\<close>, \<open>Resource_Handles\<close> (\<open>host_resource.rs\<close>): the slot heap with generation
    tokens; locale \<open>handle_store\<close>, the contract of a store of handles, interpreted by the heap and
    by the readiness gates.
  \<^item> \<open>Readiness\<close> (\<open>readiness.rs\<close>): stopping is permanent for a held lease.
  \<^item> \<open>Shutdown\<close> (\<open>shutdown.rs\<close>): locales \<open>watch_laws\<close> and \<open>notify_laws\<close> for tokio; the first
    cause wins, and draining waits for exactly the requests in flight.
  \<^item> \<open>File_Path\<close>, \<open>File_Conditions\<close>, \<open>File_Server\<close>, \<open>File_Stream\<close> (\<open>file_server.rs\<close>): locales
    \<open>cap_fs_laws\<close> and \<open>http_date_laws\<close> for the capability file system and the date format; no path
    escapes its root, ranges and validators, the content of every response, and that streaming
    ends with exactly the selected bytes.
  \<^item> \<open>Native_Router\<close> (\<open>native_router.rs\<close>): well-formed tables, longest mount, and probes while
    draining.
  \<^item> \<open>Request_Handler\<close> (\<open>http_server.rs\<close>: \<open>handle_req\<close> and the functions it calls; the
    metrics response of \<open>telemetry.rs\<close>): the composition of the components above on the path of one
    request, with what the handler awaits as an argument; every request is answered with a
    finalised response and the application sees only vetted requests.
  \<^item> \<open>Request_Body\<close> (\<open>request_body.rs\<close>): locale \<open>mpsc_laws\<close> for tokio's bounded channel; the
    interleavings of the pump, the reading thread and calls of \<open>stop\<close>: what is delivered is a prefix
    of the stream within the limit, the end is reported only after all of it, and no wake-up is lost
    when the channel has room for two messages; with room for one it can be.
  \<^item> \<open>Roc_Str\<close>: strings of the Roc platform, splitting and joining.
  \<^item> \<open>Sse\<close> (\<open>Sse.roc\<close>): a client reads from a stream exactly the events that were sent.
  \<^item> \<open>Multipart\<close> (\<open>SplitList.roc\<close>, \<open>MultipartFormData.roc\<close>): decoding a printed form gives its parts.
  \<^item> \<open>Html\<close> (\<open>Html.roc\<close>, \<open>Attribute.roc\<close>): a parser reads from rendered nodes exactly their
    tags, attributes and characters.

  \<^bold>\<open>Termination and fuel.\<close>  All operations are total functions, except the copy and write loops of
  \<open>File_Stream\<close>, which are \<open>partial_function (option)\<close>: a chunk size of zero would loop forever.
  That they return for every chunk size that activation accepts is part of their theorems.  No
  definition has fuel.

  \<^bold>\<open>Not modelled.\<close>  The asynchronous drivers (the rest of \<open>http_server.rs\<close>, \<open>server_transport.rs\<close>,
  the sinks, handles and Roc lists of \<open>request_body.rs\<close>, \<open>response_body.rs\<close>, \<open>body_sink.rs\<close>, \<open>brotli_executor.rs\<close>), which are poll
  functions and tasks of tokio, hyper and h2; the encoders and file systems of third-party
  packages; hosted functions that only forward to the operating system or to SQLite (\<open>file.rs\<close>,
  \<open>dir.rs\<close>, \<open>path.rs\<close>, \<open>os_str.rs\<close>, \<open>cmd.rs\<close>, \<open>env.rs\<close>, \<open>time.rs\<close>, \<open>stdio.rs\<close>, \<open>tcp.rs\<close>, \<open>http.rs\<close>,
  \<open>sqlite.rs\<close>); the unsafe allocator protocol and the generated ABI (\<open>roc_alloc.rs\<close>,
  \<open>abi/mod.rs\<close>, \<open>roc_platform_abi.rs\<close>) apart from the reference counts of boxes; the
  counters of the telemetry; the benchmark builds; the Roc modules that declare hosted functions and
  wrap them, with the pure code some of them have (\<open>Url.roc\<close>, \<open>Path.roc\<close>, \<open>OsStr.roc\<close>,
  \<open>UnixTime.roc\<close>), and the url-encoded forms of \<open>MultipartFormData.roc\<close>; and the texts of error
  messages.  Weak memory orderings, time and
  fairness of the scheduler are outside the model: timers appear as steps that may happen.
\<close>

end
